theory Spec2Isabelle
  imports Main
begin

section \<open>Python values\<close>

text \<open>
  The values that travel through \<^verbatim>\<open>operations.py\<close>: entity data, change-sets, wire
  payloads and decoded server responses. A Python \<^verbatim>\<open>dict\<close> keeps its keys in insertion
  order, so it is an association list; the keys that occur in this module are strings.
  \<open>PObject a\<close> is a bare \<^verbatim>\<open>object()\<close>, known by its identity \<open>a\<close> alone: two of them
  are equal only when they are the same object. \<^verbatim>\<open>REMOVED_VALUE = object()\<close> is the
  one with identity 0; the source compares with it by \<^verbatim>\<open>is\<close>.
\<close>

datatype pyval =
    PNone
  | PBool bool
  | PInt int
  | PStr string
  | PList "pyval list"
  | PDict "(string \<times> pyval) list"
  | PObject nat

type_synonym dict = "(string \<times> pyval) list"

definition REMOVED_VALUE :: pyval where
  "REMOVED_VALUE = PObject 0"

text \<open>
  The exceptions the module can raise or let through. \<^verbatim>\<open>FailedOperations\<close> is raised
  with a formatted message in two shapes; each is kept with the arguments of its format
  string: the raw response, or the operation id, the body handed to \<^verbatim>\<open>json.dumps\<close>
  and the server's error text. \<open>TransportFault\<close> stands for whatever the connection's
  \<^verbatim>\<open>post\<close> raises.
\<close>

datatype error =
    TypeError
  | ValueError
  | KeyError
  | AttributeError
  | TransportFault string
  | FailedOperationsContent pyval
  | FailedOperationsOperation pyval dict pyval

text \<open>Truth value of a Python object, as \<^verbatim>\<open>if x\<close> and \<^verbatim>\<open>not x\<close> test it.\<close>

fun truthy :: "pyval \<Rightarrow> bool" where
  "truthy PNone = False"
| "truthy (PBool b) = b"
| "truthy (PInt i) = (i \<noteq> 0)"
| "truthy (PStr s) = (s \<noteq> [])"
| "truthy (PList xs) = (xs \<noteq> [])"
| "truthy (PDict d) = (d \<noteq> [])"
| "truthy (PObject a) = True"

subsection \<open>Dictionaries\<close>

text \<open>\<^verbatim>\<open>k in d\<close>\<close>

definition dict_contains :: "('k \<times> 'v) list \<Rightarrow> 'k \<Rightarrow> bool" where
  "dict_contains d k = (map_of d k \<noteq> None)"

text \<open>\<^verbatim>\<open>d[k]\<close>, raising \<^verbatim>\<open>KeyError\<close> on a missing key.\<close>

definition dict_getitem :: "('k \<times> 'v) list \<Rightarrow> 'k \<Rightarrow> error + 'v" where
  "dict_getitem d k = (case map_of d k of None \<Rightarrow> Inl KeyError | Some v \<Rightarrow> Inr v)"

text \<open>\<^verbatim>\<open>d[k] = v\<close>: an existing key keeps its place, a new key goes last.\<close>

fun dict_set :: "('k \<times> 'v) list \<Rightarrow> 'k \<Rightarrow> 'v \<Rightarrow> ('k \<times> 'v) list" where
  "dict_set [] k v = [(k, v)]"
| "dict_set ((k', v') # d) k v =
     (if k' = k then (k, v) # d else (k', v') # dict_set d k v)"

text \<open>The dictionary left by \<^verbatim>\<open>d.pop(k)\<close>.\<close>

definition dict_pop :: "('k \<times> 'v) list \<Rightarrow> 'k \<Rightarrow> ('k \<times> 'v) list" where
  "dict_pop d k = filter (\<lambda>kv. fst kv \<noteq> k) d"

text \<open>
  \<^verbatim>\<open>d[k].append(x)\<close> on a \<^verbatim>\<open>collections.defaultdict(list)\<close>: a missing key is first
  inserted with an empty list.
\<close>

fun defaultdict_append :: "('k \<times> 'v list) list \<Rightarrow> 'k \<Rightarrow> 'v \<Rightarrow> ('k \<times> 'v list) list" where
  "defaultdict_append [] k x = [(k, [x])]"
| "defaultdict_append ((k', xs) # d) k x =
     (if k' = k then (k', xs @ [x]) # d else (k', xs) # defaultdict_append d k x)"

text \<open>
  \<^verbatim>\<open>x[key]\<close> with a string key on an arbitrary value: only a dictionary can answer;
  a list or a string wants an integer index, and the other values have no items.
\<close>

fun py_getitem :: "pyval \<Rightarrow> string \<Rightarrow> error + pyval" where
  "py_getitem (PDict d) k = dict_getitem d k"
| "py_getitem v k = Inl TypeError"

text \<open>
  \<^verbatim>\<open>for item in x\<close>: a list yields its elements, a dictionary its keys, a string its
  characters; nothing else in this model is iterable.
\<close>

fun py_iter :: "pyval \<Rightarrow> error + pyval list" where
  "py_iter (PList xs) = Inr xs"
| "py_iter (PDict d) = Inr (map (\<lambda>kv. PStr (fst kv)) d)"
| "py_iter (PStr s) = Inr (map (\<lambda>c. PStr [c]) s)"
| "py_iter v = Inl TypeError"

text \<open>
  \<^verbatim>\<open>json.dumps\<close> succeeds on the JSON-shaped values and raises \<^verbatim>\<open>TypeError\<close> on a bare
  \<^verbatim>\<open>object()\<close> anywhere inside.
\<close>

primrec json_serializable :: "pyval \<Rightarrow> bool" where
  "json_serializable PNone = True"
| "json_serializable (PBool b) = True"
| "json_serializable (PInt i) = True"
| "json_serializable (PStr s) = True"
| "json_serializable (PList xs) = list_all id (map json_serializable xs)"
| "json_serializable (PDict d) = list_all snd (map (map_prod id json_serializable) d)"
| "json_serializable (PObject a) = False"

text \<open>
  \<^verbatim>\<open>copy.deepcopy\<close>: strings, numbers, booleans and \<^verbatim>\<open>None\<close> are returned as they
  are, lists and dictionaries are rebuilt, and a bare object is rebuilt as a new object.
  Which new object is the interpreter's choice; \<open>new_object a\<close> is the identity of the
  copy made of the object \<open>a\<close> during this call.
\<close>

primrec deepcopy :: "(nat \<Rightarrow> nat) \<Rightarrow> pyval \<Rightarrow> pyval" where
  "deepcopy new_object PNone = PNone"
| "deepcopy new_object (PBool b) = PBool b"
| "deepcopy new_object (PInt i) = PInt i"
| "deepcopy new_object (PStr s) = PStr s"
| "deepcopy new_object (PList xs) = PList (map (deepcopy new_object) xs)"
| "deepcopy new_object (PDict d) = PDict (map (map_prod id (deepcopy new_object)) d)"
| "deepcopy new_object (PObject a) = PObject (new_object a)"

definition deepcopy_dict :: "(nat \<Rightarrow> nat) \<Rightarrow> dict \<Rightarrow> dict" where
  "deepcopy_dict new_object d = map (map_prod id (deepcopy new_object)) d"

section \<open>Operations\<close>

text \<open>
  The three subclasses of \<^verbatim>\<open>AbstractOperation\<close>. Every operation has \<^verbatim>\<open>_id\<close>,
  \<^verbatim>\<open>_project_name\<close> and \<^verbatim>\<open>_entity_type\<close>; a create operation has \<^verbatim>\<open>_data\<close>, an
  update operation \<^verbatim>\<open>_entity_id\<close> and \<^verbatim>\<open>_update_data\<close>, a delete operation
  \<^verbatim>\<open>_entity_id\<close>. The back reference \<^verbatim>\<open>_session\<close> is read by no method modelled here
  and is left out. A Python object is equal to itself only; operations are compared as
  values here, which agrees with that as long as distinct objects carry distinct ids.
\<close>

datatype operation =
    CreateOperation (op_id: string) (project_name: string) (entity_type: string)
      (data: dict)
  | UpdateOperation (op_id: string) (project_name: string) (entity_type: string)
      (update_entity_id: pyval) (update_data: dict)
  | DeleteOperation (op_id: string) (project_name: string) (entity_type: string)
      (delete_entity_id: pyval)

fun operation_name :: "operation \<Rightarrow> string" where
  "operation_name (CreateOperation i p t d) = ''create''"
| "operation_name (UpdateOperation i p t e u) = ''update''"
| "operation_name (DeleteOperation i p t e) = ''delete''"

text \<open>
  The constructors. \<open>new_uuid\<close> is the value of \<^verbatim>\<open>str(uuid.uuid4())\<close> and
  \<open>new_entity_id\<close> the value of \<^verbatim>\<open>create_entity_id()\<close> (imported from \<^verbatim>\<open>.utils\<close>)
  at the moment of the call, \<open>new_object\<close> the objects that \<^verbatim>\<open>copy.deepcopy\<close> builds
  in it. The payload of a create operation may be \<^verbatim>\<open>None\<close>; a payload that is
  \<^verbatim>\<open>None\<close> or empty is replaced by a new empty dictionary, any other is deep-copied.
\<close>

definition CreateOperation_init ::
    "string \<Rightarrow> string \<Rightarrow> dict option \<Rightarrow> (nat \<Rightarrow> nat) \<Rightarrow> string \<Rightarrow> string \<Rightarrow>
     operation" where
  "CreateOperation_init project entity dat new_object new_entity_id new_uuid =
     (let d0 = (case dat of
                  None \<Rightarrow> []
                | Some d \<Rightarrow> if d = [] then [] else deepcopy_dict new_object d);
          d1 = (if \<not> dict_contains d0 ''id''
                then dict_set d0 ''id'' (PStr new_entity_id) else d0)
      in CreateOperation new_uuid project entity d1)"

definition UpdateOperation_init ::
    "string \<Rightarrow> string \<Rightarrow> pyval \<Rightarrow> dict \<Rightarrow> string \<Rightarrow> operation" where
  "UpdateOperation_init project entity eid changes new_uuid =
     UpdateOperation new_uuid project entity eid changes"

definition DeleteOperation_init ::
    "string \<Rightarrow> string \<Rightarrow> pyval \<Rightarrow> string \<Rightarrow> operation" where
  "DeleteOperation_init project entity eid new_uuid =
     DeleteOperation new_uuid project entity eid"

text \<open>The property \<^verbatim>\<open>entity_id\<close>; on a create operation it reads \<^verbatim>\<open>self._data["id"]\<close>.\<close>

fun entity_id :: "operation \<Rightarrow> error + pyval" where
  "entity_id (CreateOperation i p t d) = dict_getitem d ''id''"
| "entity_id (UpdateOperation i p t e u) = Inr e"
| "entity_id (DeleteOperation i p t e) = Inr e"

text \<open>
  The loop shared by \<^verbatim>\<open>UpdateOperation.to_data\<close> and
  \<^verbatim>\<open>UpdateOperation.to_server_operation\<close>: copy the change-set into a fresh dictionary,
  writing \<^verbatim>\<open>None\<close> where the value is the removal marker. Only the first level is
  looked at.
\<close>

fun substitute_removed :: "dict \<Rightarrow> dict \<Rightarrow> dict" where
  "substitute_removed [] changes = changes"
| "substitute_removed ((key, v) # items) changes =
     substitute_removed items
       (dict_set changes key (if v = REMOVED_VALUE then PNone else v))"

text \<open>
  \<^verbatim>\<open>AbstractOperation.to_data\<close>, and \<^verbatim>\<open>to_data\<close> of the three classes. That of a
  create operation deep-copies the data; \<open>new_object\<close> is as above.
\<close>

definition abstract_to_data :: "operation \<Rightarrow> dict" where
  "abstract_to_data operation =
     [(''id'', PStr (op_id operation)),
      (''entity_type'', PStr (entity_type operation)),
      (''project_name'', PStr (project_name operation)),
      (''operation'', PStr (operation_name operation))]"

fun to_data :: "(nat \<Rightarrow> nat) \<Rightarrow> operation \<Rightarrow> dict" where
  "to_data new_object (CreateOperation i p t d) =
     dict_set (abstract_to_data (CreateOperation i p t d)) ''data''
       (PDict (deepcopy_dict new_object d))"
| "to_data new_object (UpdateOperation i p t e u) =
     dict_set
       (dict_set (abstract_to_data (UpdateOperation i p t e u)) ''entity_id'' e)
       ''changes'' (PDict (substitute_removed u []))"
| "to_data new_object (DeleteOperation i p t e) =
     dict_set (abstract_to_data (DeleteOperation i p t e)) ''entity_id'' e"

text \<open>
  \<^verbatim>\<open>to_server_operation\<close>: the wire form, \<open>None\<close> for an update operation without
  changes. The create variant reads \<^verbatim>\<open>self.entity_id\<close> and so raises \<^verbatim>\<open>KeyError\<close> when
  \<^verbatim>\<open>"id"\<close> was deleted from its data.
\<close>

fun to_server_operation :: "operation \<Rightarrow> error + dict option" where
  "to_server_operation (CreateOperation i p t d) =
     (case entity_id (CreateOperation i p t d) of
        Inl e \<Rightarrow> Inl e
      | Inr eid \<Rightarrow> Inr (Some
          [(''id'', PStr i), (''type'', PStr ''create''), (''entityType'', PStr t),
           (''entityId'', eid), (''data'', PDict d)]))"
| "to_server_operation (UpdateOperation i p t e u) =
     (if u = [] then Inr None
      else Inr (Some
          [(''id'', PStr i), (''type'', PStr ''update''), (''entityType'', PStr t),
           (''entityId'', e), (''data'', PDict (substitute_removed u []))]))"
| "to_server_operation (DeleteOperation i p t e) =
     Inr (Some
          [(''id'', PStr i), (''type'', PStr (operation_name (DeleteOperation i p t e))),
           (''entityId'', e), (''entityType'', PStr t)])"

text \<open>
  \<^verbatim>\<open>CreateOperation.set_value\<close> (and \<^verbatim>\<open>__setitem__\<close>, which calls it): the only
  mutator of an operation. The other two classes have no such method.
\<close>

fun set_value :: "string \<Rightarrow> pyval \<Rightarrow> operation \<Rightarrow> error + operation" where
  "set_value key v (CreateOperation i p t d) = Inr (CreateOperation i p t (dict_set d key v))"
| "set_value key v (UpdateOperation i p t e u) = Inl AttributeError"
| "set_value key v (DeleteOperation i p t e) = Inl AttributeError"

section \<open>Identifier validation\<close>

text \<open>
  \<^verbatim>\<open>uuid.UUID(hex)\<close> of the standard library on a string: drop \<^verbatim>\<open>urn:\<close> and
  \<^verbatim>\<open>uuid:\<close>, strip braces, drop hyphens; the rest must have 32 characters, be read by
  \<^verbatim>\<open>int(_, 16)\<close> and give a number below \<^verbatim>\<open>1 << 128\<close> that is not negative, else
  \<^verbatim>\<open>ValueError\<close>. What \<^verbatim>\<open>int(_, 16)\<close> reads is not spelled out here: \<open>int16\<close> is
  that function, \<open>None\<close> where it raises.
\<close>

function str_remove :: "string \<Rightarrow> string \<Rightarrow> string" where
  "str_remove old [] = []"
| "str_remove old (c # cs) =
     (if old \<noteq> [] \<and> take (length old) (c # cs) = old
      then str_remove old (drop (length old) (c # cs))
      else c # str_remove old cs)"
  by pat_completeness auto
termination
  by (relation "measure (\<lambda>(old, s). length s)") auto

definition str_strip :: "string \<Rightarrow> string \<Rightarrow> string" where
  "str_strip chars s =
     rev (dropWhile (\<lambda>c. c \<in> set chars) (rev (dropWhile (\<lambda>c. c \<in> set chars) s)))"

definition uuid_UUID :: "(string \<Rightarrow> int option) \<Rightarrow> string \<Rightarrow> error + int" where
  "uuid_UUID int16 s =
     (let hex = str_remove ''-''
                  (str_strip ''{}'' (str_remove ''uuid:'' (str_remove ''urn:'' s)))
      in if length hex \<noteq> 32 then Inl ValueError
         else (case int16 hex of
                 None \<Rightarrow> Inl ValueError
               | Some n \<Rightarrow> if 0 \<le> n \<and> n < 2 ^ 128 then Inr n else Inl ValueError))"

text \<open>
  \<^verbatim>\<open>_create_or_convert_to_id\<close>, the helper of the entity skeleton functions. A value
  that is no string has no \<^verbatim>\<open>replace\<close> method.
\<close>

fun create_or_convert_to_id ::
    "(string \<Rightarrow> int option) \<Rightarrow> pyval \<Rightarrow> string \<Rightarrow> error + pyval" where
  "create_or_convert_to_id int16 PNone new_entity_id = Inr (PStr new_entity_id)"
| "create_or_convert_to_id int16 (PStr s) new_entity_id =
     (case uuid_UUID int16 s of Inl e \<Rightarrow> Inl e | Inr u \<Rightarrow> Inr (PStr s))"
| "create_or_convert_to_id int16 v new_entity_id = Inl AttributeError"

section \<open>The operations session\<close>

text \<open>
  \<^verbatim>\<open>OperationsSession\<close>: the list \<^verbatim>\<open>_operations\<close> and the
  \<^verbatim>\<open>defaultdict(list)\<close> \<^verbatim>\<open>_nested_operations\<close>, keyed by operation id. The connection
  is a parameter of \<open>commit\<close>; the project cache is read by \<^verbatim>\<open>get_project\<close> only.
  The methods \<^verbatim>\<open>append\<close>, \<^verbatim>\<open>extend\<close> and \<^verbatim>\<open>remove\<close> are \<open>append_op\<close>,
  \<open>extend_ops\<close> and \<open>remove_op\<close> here, their plain names being taken in HOL.
\<close>

record OperationsSession =
  operations :: "operation list"
  nested_operations :: "(string \<times> operation list) list"

text \<open>What a caller may hand to \<^verbatim>\<open>add\<close>: an operation, or any other object.\<close>

datatype pyobj = Operation operation | NotOperation pyval

fun add :: "pyobj \<Rightarrow> OperationsSession \<Rightarrow> (error + unit) \<times> OperationsSession" where
  "add (NotOperation v) s = (Inl TypeError, s)"
| "add (Operation operation) s =
     (Inr (), s\<lparr>operations := operations s @ [operation]\<rparr>)"

definition append_op :: "pyobj \<Rightarrow> OperationsSession \<Rightarrow> (error + unit) \<times> OperationsSession" where
  "append_op operation s = add operation s"

fun extend_ops :: "pyobj list \<Rightarrow> OperationsSession \<Rightarrow> (error + unit) \<times> OperationsSession" where
  "extend_ops [] s = (Inr (), s)"
| "extend_ops (operation # rest) s =
     (case add operation s of
        (Inl e, s') \<Rightarrow> (Inl e, s')
      | (Inr u, s') \<Rightarrow> extend_ops rest s')"

text \<open>
  \<^verbatim>\<open>self._operations.remove(operation)\<close>: \<^verbatim>\<open>list.remove\<close> deletes the first equal
  element and raises \<^verbatim>\<open>ValueError\<close> when there is none.
\<close>

fun remove_op :: "pyobj \<Rightarrow> OperationsSession \<Rightarrow> (error + unit) \<times> OperationsSession" where
  "remove_op (NotOperation v) s = (Inl ValueError, s)"
| "remove_op (Operation operation) s =
     (if operation \<in> set (operations s)
      then (Inr (), s\<lparr>operations := remove1 operation (operations s)\<rparr>)
      else (Inl ValueError, s))"

definition clear :: "OperationsSession \<Rightarrow> OperationsSession" where
  "clear s = s\<lparr>operations := []\<rparr>"

definition session_to_data :: "(nat \<Rightarrow> nat) \<Rightarrow> OperationsSession \<Rightarrow> dict list" where
  "session_to_data new_object s = map (to_data new_object) (operations s)"

text \<open>
  The tail that \<^verbatim>\<open>create_entity\<close>, \<^verbatim>\<open>update_entity\<close> and \<^verbatim>\<open>delete_entity\<close> share,
  word for word: with a \<^verbatim>\<open>nested_id\<close> that is neither \<^verbatim>\<open>None\<close> nor empty the new
  operation goes under that key of \<^verbatim>\<open>_nested_operations\<close>; otherwise it is added,
  and the operations waiting under its own id are popped and added after it.
\<close>

definition add_or_nest ::
    "operation \<Rightarrow> string option \<Rightarrow> OperationsSession \<Rightarrow> (error + operation) \<times> OperationsSession" where
  "add_or_nest operation nested_id s =
     (if (case nested_id of None \<Rightarrow> False | Some n \<Rightarrow> n \<noteq> [])
      then (Inr operation,
            s\<lparr>nested_operations :=
                 defaultdict_append (nested_operations s) (the nested_id) operation\<rparr>)
      else
        (case add (Operation operation) s of
           (Inl e, s1) \<Rightarrow> (Inl e, s1)
         | (Inr u, s1) \<Rightarrow>
             (case map_of (nested_operations s1) (op_id operation) of
                None \<Rightarrow> (Inr operation, s1)
              | Some waiting \<Rightarrow>
                  (case extend_ops (map Operation waiting)
                          (s1\<lparr>nested_operations :=
                                dict_pop (nested_operations s1) (op_id operation)\<rparr>) of
                     (Inl e, s2) \<Rightarrow> (Inl e, s2)
                   | (Inr u', s2) \<Rightarrow> (Inr operation, s2)))))"

definition create_entity ::
    "string \<Rightarrow> string \<Rightarrow> dict option \<Rightarrow> string option \<Rightarrow> (nat \<Rightarrow> nat) \<Rightarrow> string \<Rightarrow>
     string \<Rightarrow> OperationsSession \<Rightarrow> (error + operation) \<times> OperationsSession" where
  "create_entity project entity dat nested_id new_object new_entity_id new_uuid s =
     add_or_nest (CreateOperation_init project entity dat new_object new_entity_id new_uuid)
       nested_id s"

definition update_entity ::
    "string \<Rightarrow> string \<Rightarrow> pyval \<Rightarrow> dict \<Rightarrow> string option \<Rightarrow> string \<Rightarrow>
     OperationsSession \<Rightarrow> (error + operation) \<times> OperationsSession" where
  "update_entity project entity eid changes nested_id new_uuid s =
     add_or_nest (UpdateOperation_init project entity eid changes new_uuid) nested_id s"

definition delete_entity ::
    "string \<Rightarrow> string \<Rightarrow> pyval \<Rightarrow> string option \<Rightarrow> string \<Rightarrow>
     OperationsSession \<Rightarrow> (error + operation) \<times> OperationsSession" where
  "delete_entity project entity eid nested_id new_uuid s =
     add_or_nest (DeleteOperation_init project entity eid new_uuid) nested_id s"

section \<open>Commit\<close>

text \<open>
  The connection is outside the module. Its \<^verbatim>\<open>post\<close> is a parameter: given the path
  and the keyword arguments it answers with the decoded body (\<^verbatim>\<open>result.data\<close>) or
  raises; it has a state of its own, and it may reach the session, for instance through
  a handler that adds follow-up operations. The world holds the session, the
  connection's state and the trace of the requests posted so far, each with its path,
  its keyword arguments and what came back.
\<close>

record 'c world =
  session :: OperationsSession
  con_state :: 'c
  posted :: "(string \<times> dict \<times> (error + pyval)) list"

type_synonym 'c post_fn =
  "string \<Rightarrow> dict \<Rightarrow> 'c \<Rightarrow> OperationsSession \<Rightarrow> (error + pyval) \<times> 'c \<times> OperationsSession"

definition con_post :: "'c post_fn \<Rightarrow> string \<Rightarrow> dict \<Rightarrow> 'c world \<Rightarrow> (error + pyval) \<times> 'c world" where
  "con_post post path kwargs w =
     (case post path kwargs (con_state w) (session w) of
        (r, c', s') \<Rightarrow>
          (r, \<lparr>session = s', con_state = c', posted = posted w @ [(path, kwargs, r)]\<rparr>))"

text \<open>
  \<^verbatim>\<open>operations_by_project[operation.project_name].append(operation)\<close> over the detached
  list. The dictionary is iterated in insertion order.
\<close>

fun group_by_project ::
    "operation list \<Rightarrow> (string \<times> operation list) list \<Rightarrow> (string \<times> operation list) list" where
  "group_by_project [] by_project = by_project"
| "group_by_project (operation # rest) by_project =
     group_by_project rest
       (defaultdict_append by_project (project_name operation) operation)"

text \<open>The inner loop: the wire bodies of one project, remembered by operation id.\<close>

fun render_operations ::
    "operation list \<Rightarrow> (string \<times> dict) list \<Rightarrow> dict list \<Rightarrow>
     error + ((string \<times> dict) list \<times> dict list)" where
  "render_operations [] body_by_id operations_body = Inr (body_by_id, operations_body)"
| "render_operations (operation # rest) body_by_id operations_body =
     (case to_server_operation operation of
        Inl e \<Rightarrow> Inl e
      | Inr None \<Rightarrow> render_operations rest body_by_id operations_body
      | Inr (Some body) \<Rightarrow>
          render_operations rest
            (dict_set body_by_id (op_id operation) body) (operations_body @ [body]))"

definition operations_path :: "string \<Rightarrow> string" where
  "operations_path project = ''projects/'' @ project @ ''/operations''"

definition post_kwargs :: "dict list \<Rightarrow> dict" where
  "post_kwargs operations_body =
     [(''operations'', PList (map PDict operations_body)), (''canFail'', PBool False)]"

text \<open>The outer loop: one request for every project that has a body to send.\<close>

fun submit_projects ::
    "'c post_fn \<Rightarrow> (string \<times> operation list) list \<Rightarrow> (string \<times> dict) list \<Rightarrow>
     pyval list \<Rightarrow> 'c world \<Rightarrow> (error + ((string \<times> dict) list \<times> pyval list)) \<times> 'c world" where
  "submit_projects post [] body_by_id results w = (Inr (body_by_id, results), w)"
| "submit_projects post ((project, ops) # rest) body_by_id results w =
     (case render_operations ops body_by_id [] of
        Inl e \<Rightarrow> (Inl e, w)
      | Inr (body_by_id', operations_body) \<Rightarrow>
          (if operations_body \<noteq> []
           then
             (case con_post post (operations_path project) (post_kwargs operations_body) w of
                (Inl e, w') \<Rightarrow> (Inl e, w')
              | (Inr result, w') \<Rightarrow>
                  submit_projects post rest body_by_id' (results @ [result]) w')
           else submit_projects post rest body_by_id' results w))"

text \<open>\<^verbatim>\<open>result.get("success")\<close>; only a dictionary has \<^verbatim>\<open>get\<close>.\<close>

fun result_get :: "pyval \<Rightarrow> string \<Rightarrow> error + pyval" where
  "result_get (PDict d) k = Inr (case map_of d k of None \<Rightarrow> PNone | Some v \<Rightarrow> v)"
| "result_get v k = Inl AttributeError"

text \<open>\<^verbatim>\<open>body_by_id[operation_id]\<close>: a list or dictionary is no key at all.\<close>

fun body_lookup :: "(string \<times> dict) list \<Rightarrow> pyval \<Rightarrow> error + dict" where
  "body_lookup body_by_id (PStr i) = dict_getitem body_by_id i"
| "body_lookup body_by_id (PList xs) = Inl TypeError"
| "body_lookup body_by_id (PDict d) = Inl TypeError"
| "body_lookup body_by_id v = Inl KeyError"

text \<open>
  The scan of \<^verbatim>\<open>result["operations"]\<close>. The arguments of the message are evaluated in
  the order id, dumped body, error text.
\<close>

fun scan_op_results :: "(string \<times> dict) list \<Rightarrow> pyval list \<Rightarrow> error + unit" where
  "scan_op_results body_by_id [] = Inr ()"
| "scan_op_results body_by_id (op_result # rest) =
     (case py_getitem op_result ''success'' of
        Inl e \<Rightarrow> Inl e
      | Inr ok \<Rightarrow>
          if truthy ok then scan_op_results body_by_id rest
          else
            (case py_getitem op_result ''id'' of
               Inl e \<Rightarrow> Inl e
             | Inr operation_id \<Rightarrow>
                 (case body_lookup body_by_id operation_id of
                    Inl e \<Rightarrow> Inl e
                  | Inr body \<Rightarrow>
                      if \<not> json_serializable (PDict body) then Inl TypeError
                      else
                        (case py_getitem op_result ''error'' of
                           Inl e \<Rightarrow> Inl e
                         | Inr err \<Rightarrow>
                             Inl (FailedOperationsOperation operation_id body err)))))"

definition check_result :: "(string \<times> dict) list \<Rightarrow> pyval \<Rightarrow> error + unit" where
  "check_result body_by_id result =
     (case result_get result ''success'' of
        Inl e \<Rightarrow> Inl e
      | Inr ok \<Rightarrow>
          if truthy ok then Inr ()
          else
            (case result of
               PDict d \<Rightarrow>
                 (if \<not> dict_contains d ''operations''
                  then Inl (FailedOperationsContent result)
                  else
                    (case dict_getitem d ''operations'' of
                       Inl e \<Rightarrow> Inl e
                     | Inr breakdown \<Rightarrow>
                         (case py_iter breakdown of
                            Inl e \<Rightarrow> Inl e
                          | Inr op_results \<Rightarrow> scan_op_results body_by_id op_results)))
             | _ \<Rightarrow> Inl AttributeError))"

fun check_results :: "(string \<times> dict) list \<Rightarrow> pyval list \<Rightarrow> error + unit" where
  "check_results body_by_id [] = Inr ()"
| "check_results body_by_id (result # rest) =
     (case check_result body_by_id result of
        Inl e \<Rightarrow> Inl e
      | Inr u \<Rightarrow> check_results body_by_id rest)"

definition commit :: "'c post_fn \<Rightarrow> 'c world \<Rightarrow> (error + unit) \<times> 'c world" where
  "commit post w =
     (let ops = operations (session w);
          w0 = w\<lparr>session := (session w)\<lparr>operations := []\<rparr>\<rparr>
      in if ops = [] then (Inr (), w0)
         else
           (case submit_projects post (group_by_project ops []) [] [] w0 of
              (Inl e, w1) \<Rightarrow> (Inl e, w1)
            | (Inr (body_by_id, results), w1) \<Rightarrow> (check_results body_by_id results, w1)))"

section \<open>Vocabulary of the properties\<close>

text \<open>
  Notions used to state what \<open>commit\<close> sends; none of them is a function of the
  module. \<open>id_bodies\<close> lists, in queue order, the operations that have a wire form,
  each as its id and body; \<open>wire_bodies\<close> are the bodies alone; \<open>renders\<close> says that
  \<^verbatim>\<open>to_server_operation\<close> returns rather than raises; \<open>requests\<close> are the path and
  keyword arguments of one request for every project that has a body to send.
\<close>

definition id_bodies :: "operation list \<Rightarrow> (string \<times> dict) list" where
  "id_bodies ops =
     concat (map (\<lambda>operation.
       (case to_server_operation operation of
          Inr (Some body) \<Rightarrow> [(op_id operation, body)]
        | _ \<Rightarrow> [])) ops)"

definition wire_bodies :: "operation list \<Rightarrow> dict list" where
  "wire_bodies ops = map snd (id_bodies ops)"

definition renders :: "operation \<Rightarrow> bool" where
  "renders operation =
     (case to_server_operation operation of Inl e \<Rightarrow> False | Inr body \<Rightarrow> True)"

definition requests :: "(string \<times> operation list) list \<Rightarrow> (string \<times> dict) list" where
  "requests parts =
     map (\<lambda>part. (operations_path (fst part), post_kwargs (wire_bodies (snd part))))
       (filter (\<lambda>part. wire_bodies (snd part) \<noteq> []) parts)"

text \<open>The request and the outcome of an entry of the trace.\<close>

definition request_of :: "string \<times> dict \<times> (error + pyval) \<Rightarrow> string \<times> dict" where
  "request_of entry = (fst entry, fst (snd entry))"

definition outcome_of :: "string \<times> dict \<times> (error + pyval) \<Rightarrow> error + pyval" where
  "outcome_of entry = snd (snd entry)"

text \<open>
  A response whose breakdown is a list of dictionaries, each with a true
  \<^verbatim>\<open>success\<close>.
\<close>

definition entry_succeeded :: "pyval \<Rightarrow> bool" where
  "entry_succeeded op_result =
     (case op_result of
        PDict d \<Rightarrow> (case map_of d ''success'' of None \<Rightarrow> False | Some ok \<Rightarrow> truthy ok)
      | _ \<Rightarrow> False)"

definition all_entries_succeeded :: "pyval \<Rightarrow> bool" where
  "all_entries_succeeded result =
     (case result of
        PDict d \<Rightarrow>
          (case map_of d ''operations'' of
             Some (PList op_results) \<Rightarrow> list_all entry_succeeded op_results
           | _ \<Rightarrow> False)
      | _ \<Rightarrow> False)"

text \<open>A response whose overall \<^verbatim>\<open>success\<close> is true.\<close>

definition overall_success :: "pyval \<Rightarrow> bool" where
  "overall_success result =
     (case result of
        PDict d \<Rightarrow> truthy (case map_of d ''success'' of None \<Rightarrow> PNone | Some v \<Rightarrow> v)
      | _ \<Rightarrow> False)"

section \<open>Connections for the examples\<close>

text \<open>
  Stand-ins for the connection, used where a property is shown on a concrete run: one
  answers every request with the same response; another does so and, before it
  returns, adds an operation to the session, as a response handler would.
\<close>

definition answering :: "pyval \<Rightarrow> 'c post_fn" where
  "answering response path kwargs c s = (Inr response, c, s)"




section \<open>Dictionary and queue lemmas\<close>

lemma map_of_dict_set: "map_of (dict_set d k v) = (map_of d)(k \<mapsto> v)"
  by (induction d k v rule: dict_set.induct) (auto simp: fun_eq_iff)

lemma substitute_removed_lookup:
  "distinct (map fst items) \<Longrightarrow>
   map_of (substitute_removed items acc) k =
     (case map_of items k of
        Some v \<Rightarrow> Some (if v = REMOVED_VALUE then PNone else v)
      | None \<Rightarrow> map_of acc k)"
proof (induction items arbitrary: acc)
  case Nil
  then show ?case by simp
next
  case (Cons kv items)
  obtain key v where kv: "kv = (key, v)" by (cases kv)
  from Cons.prems kv have d: "distinct (map fst items)" and nk: "map_of items key = None"
    by (auto simp: map_of_eq_None_iff)
  show ?case
    using Cons.IH[OF d, of "dict_set acc key (if v = REMOVED_VALUE then PNone else v)"] nk
    by (auto simp: kv map_of_dict_set split: option.splits)
qed

lemma remove1_first:
  assumes "x \<in> set xs"
  shows "\<exists>pre post. xs = pre @ x # post \<and> x \<notin> set pre \<and> remove1 x xs = pre @ post"
proof -
  from assms obtain pre post where "xs = pre @ x # post" "x \<notin> set pre"
    by (auto dest: split_list_first)
  then show ?thesis by (auto simp: remove1_append)
qed

lemma extend_ops_operations:
  "extend_ops (map Operation ws) s = (Inr (), s\<lparr>operations := operations s @ ws\<rparr>)"
  by (induction ws arbitrary: s) auto

lemma dict_pop_absent: "map_of d k = None \<Longrightarrow> dict_pop d k = d"
  by (induction d) (auto simp: dict_pop_def split: if_splits)

lemma dict_pop_gone: "map_of (dict_pop d k) k = None"
  by (induction d) (auto simp: dict_pop_def)

lemma dict_pop_other: "k' \<noteq> k \<Longrightarrow> map_of (dict_pop d k) k' = map_of d k'"
  by (induction d) (auto simp: dict_pop_def)

lemma add_or_nest_flush:
  assumes "nested_id = None \<or> nested_id = Some []"
  shows "add_or_nest operation nested_id s =
           (Inr operation,
            \<lparr>operations = operations s @ operation #
                 (case map_of (nested_operations s) (op_id operation) of
                    None \<Rightarrow> [] | Some waiting \<Rightarrow> waiting),
             nested_operations = dict_pop (nested_operations s) (op_id operation)\<rparr>)"
  using assms
  by (cases "map_of (nested_operations s) (op_id operation)")
     (auto simp: add_or_nest_def extend_ops_operations dict_pop_absent)

section \<open>Renderings of a single operation\<close>

text \<open>
  C7. In an update operation whose change-set is a dictionary, a key that carries the
  removal marker appears in the wire rendering's \<^verbatim>\<open>data\<close> and in the debug rendering's
  \<^verbatim>\<open>changes\<close>, mapped to \<^verbatim>\<open>None\<close> in both; in particular the wire rendering exists.
\<close>

theorem C7_removed_key_rendered_as_none:
  assumes "distinct (map fst u)" and "map_of u k = Some REMOVED_VALUE"
  shows "\<exists>body wire_data changes.
           to_server_operation (UpdateOperation i p t e u) = Inr (Some body)
         \<and> map_of body ''data'' = Some (PDict wire_data)
         \<and> map_of wire_data k = Some PNone
         \<and> map_of (to_data new_object (UpdateOperation i p t e u)) ''changes'' = Some (PDict changes)
         \<and> map_of changes k = Some PNone"
proof -
  have ne: "u \<noteq> []" using assms(2) by auto
  have l: "map_of (substitute_removed u []) k = Some PNone"
    using substitute_removed_lookup[OF assms(1), of "[]" k] assms(2) by simp
  show ?thesis using ne l by (simp add: map_of_dict_set)
qed

theorem C7_removed_key_witness:
  "distinct (map fst [(''a'', REMOVED_VALUE), (''b'', PInt 1)])
 \<and> map_of [(''a'', REMOVED_VALUE), (''b'', PInt 1)] ''a'' = Some REMOVED_VALUE
 \<and> (\<exists>body wire_data changes.
       to_server_operation
         (UpdateOperation ''o'' ''p'' ''folder'' (PStr ''e'')
            [(''a'', REMOVED_VALUE), (''b'', PInt 1)]) = Inr (Some body)
     \<and> map_of body ''data'' = Some (PDict wire_data)
     \<and> map_of wire_data ''a'' = Some PNone
     \<and> map_of (to_data Suc
         (UpdateOperation ''o'' ''p'' ''folder'' (PStr ''e'')
            [(''a'', REMOVED_VALUE), (''b'', PInt 1)])) ''changes'' = Some (PDict changes)
     \<and> map_of changes ''a'' = Some PNone)"
proof -
  have d: "distinct (map fst [(''a'', REMOVED_VALUE), (''b'', PInt 1)])" by simp
  have m: "map_of [(''a'', REMOVED_VALUE), (''b'', PInt 1)] ''a'' = Some REMOVED_VALUE"
    by simp
  from C7_removed_key_rendered_as_none[OF d m, of "''o''" "''p''" "''folder''" "PStr ''e''" Suc]
  show ?thesis using d m by blast
qed

lemma map_of_deepcopy_dict:
  "map_of (deepcopy_dict new_object d) k = map_option (deepcopy new_object) (map_of d k)"
  by (induction d) (auto simp: deepcopy_dict_def)

lemma deepcopy_json: "json_serializable v \<Longrightarrow> deepcopy new_object v = v"
proof (induction v)
  case (PList xs)
  then have "map (deepcopy new_object) xs = xs"
    by (intro map_idI) (auto simp: list_all_iff)
  then show ?case by simp
next
  case (PDict d)
  have "map_prod id (deepcopy new_object) kv = kv" if "kv \<in> set d" for kv
  proof -
    obtain k v where kv: "kv = (k, v)" by (cases kv)
    from PDict.prems that kv have "json_serializable v"
      by (auto simp: list_all_iff)
    with PDict.IH[of kv v] that kv show ?thesis by simp
  qed
  then have "map (map_prod id (deepcopy new_object)) d = d" by (intro map_idI)
  then show ?case by simp
qed simp_all

lemma create_renderings_agree:
  assumes "map_of d ''id'' = Some v"
  shows "entity_id (CreateOperation i p t d) = Inr v
       \<and> (\<exists>body. to_server_operation (CreateOperation i p t d) = Inr (Some body)
            \<and> map_of body ''entityId'' = Some v
            \<and> map_of body ''data'' = Some (PDict d))
       \<and> map_of (to_data new_object (CreateOperation i p t d)) ''data''
            = Some (PDict (deepcopy_dict new_object d))"
  using assms by (simp add: dict_getitem_def map_of_dict_set)

lemma CreateOperation_init_data:
  "\<exists>d0. CreateOperation_init p t dat copied ne nu = CreateOperation nu p t d0
     \<and> map_of d0 ''id''
         = Some (case map_of (case dat of None \<Rightarrow> [] | Some d \<Rightarrow> d) ''id'' of
                   None \<Rightarrow> PStr ne | Some x \<Rightarrow> deepcopy copied x)"
proof -
  let ?payload = "case dat of None \<Rightarrow> [] | Some d \<Rightarrow> d"
  let ?d0 = "case dat of None \<Rightarrow> []
             | Some d \<Rightarrow> if d = [] then [] else deepcopy_dict copied d"
  have d0: "map_of ?d0 ''id'' = map_option (deepcopy copied) (map_of ?payload ''id'')"
    by (cases dat) (simp_all add: map_of_deepcopy_dict)
  show ?thesis
    by (cases "map_of ?payload ''id''")
       (simp_all add: CreateOperation_init_def dict_contains_def map_of_dict_set Let_def d0)
qed

text \<open>
  C8, as the code has it. The constructor puts an id into the data of a create operation:
  the generated one when the payload has none, a deep copy of the caller's otherwise.
  From then on the entity id is what the data holds under \<^verbatim>\<open>id\<close>: \<^verbatim>\<open>set_value\<close> on
  another key keeps it, \<^verbatim>\<open>set_value\<close> on \<^verbatim>\<open>id\<close> replaces it. While the data has an id,
  the wire rendering's \<^verbatim>\<open>entityId\<close> and the \<^verbatim>\<open>id\<close> of its \<^verbatim>\<open>data\<close> are that value,
  and the \<^verbatim>\<open>id\<close> of the debug rendering's \<^verbatim>\<open>data\<close> is a deep copy of it, the same
  value unless a bare object stands in it. Once the id is gone from the data, the wire
  rendering raises \<^verbatim>\<open>KeyError\<close>.
\<close>

theorem C8_create_entity_id_in_every_rendering:
  "(map_of d ''id'' = Some v \<longrightarrow>
       entity_id (CreateOperation i p t d) = Inr v
     \<and> (\<exists>body wire_data debug_data.
          to_server_operation (CreateOperation i p t d) = Inr (Some body)
        \<and> map_of body ''entityId'' = Some v
        \<and> map_of body ''data'' = Some (PDict wire_data)
        \<and> map_of wire_data ''id'' = Some v
        \<and> map_of (to_data new_object (CreateOperation i p t d)) ''data''
             = Some (PDict debug_data)
        \<and> map_of debug_data ''id'' = Some (deepcopy new_object v))
     \<and> (json_serializable v \<longrightarrow> deepcopy new_object v = v))
 \<and> (map_of d ''id'' = None \<longrightarrow>
       to_server_operation (CreateOperation i p t d) = Inl KeyError)
 \<and> (\<exists>d0. CreateOperation_init project entity dat copied ne nu
             = CreateOperation nu project entity d0
        \<and> map_of d0 ''id''
             = Some (case map_of (case dat of None \<Rightarrow> [] | Some payload \<Rightarrow> payload) ''id'' of
                       None \<Rightarrow> PStr ne | Some given \<Rightarrow> deepcopy copied given))
 \<and> (\<exists>d'. set_value key x (CreateOperation i p t d) = Inr (CreateOperation i p t d')
        \<and> map_of d' ''id'' = (if key = ''id'' then Some x else map_of d ''id''))"
proof -
  have A: "entity_id (CreateOperation i p t d) = Inr v
     \<and> (\<exists>body wire_data debug_data.
          to_server_operation (CreateOperation i p t d) = Inr (Some body)
        \<and> map_of body ''entityId'' = Some v
        \<and> map_of body ''data'' = Some (PDict wire_data)
        \<and> map_of wire_data ''id'' = Some v
        \<and> map_of (to_data new_object (CreateOperation i p t d)) ''data''
             = Some (PDict debug_data)
        \<and> map_of debug_data ''id'' = Some (deepcopy new_object v))
     \<and> (json_serializable v \<longrightarrow> deepcopy new_object v = v)"
    if v: "map_of d ''id'' = Some v"
  proof -
    from create_renderings_agree[OF v, of i p t new_object] obtain body where
      r: "entity_id (CreateOperation i p t d) = Inr v"
         "to_server_operation (CreateOperation i p t d) = Inr (Some body)"
         "map_of body ''entityId'' = Some v" "map_of body ''data'' = Some (PDict d)"
         "map_of (to_data new_object (CreateOperation i p t d)) ''data''
            = Some (PDict (deepcopy_dict new_object d))" by blast
    have c: "map_of (deepcopy_dict new_object d) ''id'' = Some (deepcopy new_object v)"
      using v by (simp add: map_of_deepcopy_dict)
    from r v c deepcopy_json[of v new_object] show ?thesis by blast
  qed
  have B: "to_server_operation (CreateOperation i p t d) = Inl KeyError"
    if "map_of d ''id'' = None"
    using that by (simp add: dict_getitem_def)
  have C: "\<exists>d0. CreateOperation_init project entity dat copied ne nu
             = CreateOperation nu project entity d0
        \<and> map_of d0 ''id''
             = Some (case map_of (case dat of None \<Rightarrow> [] | Some payload \<Rightarrow> payload) ''id'' of
                       None \<Rightarrow> PStr ne | Some given \<Rightarrow> deepcopy copied given)"
    by (rule CreateOperation_init_data)
  have D: "\<exists>d'. set_value key x (CreateOperation i p t d) = Inr (CreateOperation i p t d')
        \<and> map_of d' ''id'' = (if key = ''id'' then Some x else map_of d ''id'')"
    by (intro exI[of _ "dict_set d key x"]) (simp add: map_of_dict_set)
  show ?thesis using A B C D by blast
qed

theorem C8_create_entity_id_witness:
  "map_of [(''name'', PStr ''n''), (''id'', PStr ''e1'')] ''id'' = Some (PStr ''e1'')
 \<and> json_serializable (PStr ''e1'')
 \<and> entity_id (CreateOperation ''o1'' ''p'' ''folder''
       [(''name'', PStr ''n''), (''id'', PStr ''e1'')]) = Inr (PStr ''e1'')
 \<and> deepcopy Suc (PStr ''e1'') = PStr ''e1''
 \<and> map_of [(''name'', PStr ''n'')] ''id'' = None
 \<and> to_server_operation (CreateOperation ''o1'' ''p'' ''folder'' [(''name'', PStr ''n'')])
     = Inl KeyError"
proof -
  have a: "map_of [(''name'', PStr ''n''), (''id'', PStr ''e1'')] ''id'' = Some (PStr ''e1'')"
    by simp
  have j: "json_serializable (PStr ''e1'')" by simp
  have n: "map_of [(''name'', PStr ''n'')] ''id'' = None" by simp
  note with_id = C8_create_entity_id_in_every_rendering
      [of "[(''name'', PStr ''n''), (''id'', PStr ''e1'')]" "PStr ''e1''" "''o1''" "''p''"
          "''folder''" Suc, THEN conjunct1, rule_format, OF a]
  note without_id = C8_create_entity_id_in_every_rendering
      [of "[(''name'', PStr ''n'')]" _ "''o1''" "''p''" "''folder''",
       THEN conjunct2, THEN conjunct1, rule_format, OF n]
  from with_id j have "entity_id (CreateOperation ''o1'' ''p'' ''folder''
       [(''name'', PStr ''n''), (''id'', PStr ''e1'')]) = Inr (PStr ''e1'')"
    and "deepcopy Suc (PStr ''e1'') = PStr ''e1''" by blast+
  with a j n without_id show ?thesis by blast
qed

text \<open>
  The id does not stay what the constructor made it: \<^verbatim>\<open>set_value\<close> on \<^verbatim>\<open>id\<close> gives
  the operation another entity id, in the wire rendering too. And an id that is a bare
  object is one object in the wire rendering and another, its copy, in the debug
  rendering.
\<close>

theorem C8_set_value_changes_entity_id_counterexample:
  "entity_id (CreateOperation_init ''p'' ''folder'' None Suc ''e1'' ''o1'') = Inr (PStr ''e1'')
 \<and> set_value ''id'' (PStr ''e2'') (CreateOperation_init ''p'' ''folder'' None Suc ''e1'' ''o1'')
     = Inr (CreateOperation ''o1'' ''p'' ''folder'' [(''id'', PStr ''e2'')])
 \<and> to_server_operation (CreateOperation ''o1'' ''p'' ''folder'' [(''id'', PStr ''e2'')])
     = Inr (Some [(''id'', PStr ''o1''), (''type'', PStr ''create''),
                  (''entityType'', PStr ''folder''), (''entityId'', PStr ''e2''),
                  (''data'', PDict [(''id'', PStr ''e2'')])])
 \<and> to_server_operation (CreateOperation_init ''p'' ''folder''
        (Some [(''id'', PObject 4)]) Suc ''e1'' ''o2'')
     = Inr (Some [(''id'', PStr ''o2''), (''type'', PStr ''create''),
                  (''entityType'', PStr ''folder''), (''entityId'', PObject 5),
                  (''data'', PDict [(''id'', PObject 5)])])
 \<and> map_of (to_data Suc (CreateOperation_init ''p'' ''folder''
        (Some [(''id'', PObject 4)]) Suc ''e1'' ''o2'')) ''data''
     = Some (PDict [(''id'', PObject 6)])"
  by (simp add: CreateOperation_init_def dict_contains_def dict_getitem_def deepcopy_dict_def
        map_of_dict_set)

section \<open>Queue operations of the session\<close>

text \<open>
  C10. \<^verbatim>\<open>remove\<close> of an operation that is not in the ready queue raises
  \<^verbatim>\<open>ValueError\<close> and leaves the session as it was; of an operation that is there, it
  takes out the first occurrence and nothing else. The deferral map is the same after
  the call in both cases.
\<close>

theorem C10_remove_missing_raises_present_removes_one:
  "(x \<notin> set (operations s) \<longrightarrow> remove_op (Operation x) s = (Inl ValueError, s))
 \<and> (x \<in> set (operations s) \<longrightarrow>
      (\<exists>pre post. operations s = pre @ x # post \<and> x \<notin> set pre
         \<and> remove_op (Operation x) s = (Inr (), s\<lparr>operations := pre @ post\<rparr>)))
 \<and> nested_operations (snd (remove_op (Operation x) s)) = nested_operations s"
proof -
  have "remove_op (Operation x) s = (Inl ValueError, s)" if "x \<notin> set (operations s)"
    using that by simp
  moreover have "\<exists>pre post. operations s = pre @ x # post \<and> x \<notin> set pre
         \<and> remove_op (Operation x) s = (Inr (), s\<lparr>operations := pre @ post\<rparr>)"
    if "x \<in> set (operations s)"
  proof -
    from remove1_first[OF that] obtain pre post where
      "operations s = pre @ x # post" "x \<notin> set pre" "remove1 x (operations s) = pre @ post"
      by blast
    with that show ?thesis by (intro exI[of _ pre] exI[of _ post]) simp
  qed
  moreover have "nested_operations (snd (remove_op (Operation x) s)) = nested_operations s"
    by simp
  ultimately show ?thesis by blast
qed

theorem C10_remove_witness:
  "remove_op (Operation (DeleteOperation ''c'' ''p'' ''folder'' (PStr ''e'')))
     \<lparr>operations = [DeleteOperation ''a'' ''p'' ''folder'' (PStr ''e'')],
      nested_operations = []\<rparr>
   = (Inl ValueError,
      \<lparr>operations = [DeleteOperation ''a'' ''p'' ''folder'' (PStr ''e'')],
       nested_operations = []\<rparr>)
 \<and> (\<exists>pre post.
       [DeleteOperation ''a'' ''p'' ''folder'' (PStr ''e''),
        DeleteOperation ''c'' ''p'' ''folder'' (PStr ''e''),
        DeleteOperation ''c'' ''p'' ''folder'' (PStr ''e'')]
         = pre @ DeleteOperation ''c'' ''p'' ''folder'' (PStr ''e'') # post
     \<and> DeleteOperation ''c'' ''p'' ''folder'' (PStr ''e'') \<notin> set pre
     \<and> remove_op (Operation (DeleteOperation ''c'' ''p'' ''folder'' (PStr ''e'')))
         \<lparr>operations =
            [DeleteOperation ''a'' ''p'' ''folder'' (PStr ''e''),
             DeleteOperation ''c'' ''p'' ''folder'' (PStr ''e''),
             DeleteOperation ''c'' ''p'' ''folder'' (PStr ''e'')],
          nested_operations = [(''k'', [])]\<rparr>
        = (Inr (), \<lparr>operations = pre @ post, nested_operations = [(''k'', [])]\<rparr>))"
  using C10_remove_missing_raises_present_removes_one
          [of "DeleteOperation ''c'' ''p'' ''folder'' (PStr ''e'')"
              "\<lparr>operations = [DeleteOperation ''a'' ''p'' ''folder'' (PStr ''e'')],
                nested_operations = []\<rparr>"]
        C10_remove_missing_raises_present_removes_one
          [of "DeleteOperation ''c'' ''p'' ''folder'' (PStr ''e'')"
              "\<lparr>operations =
                 [DeleteOperation ''a'' ''p'' ''folder'' (PStr ''e''),
                  DeleteOperation ''c'' ''p'' ''folder'' (PStr ''e''),
                  DeleteOperation ''c'' ''p'' ''folder'' (PStr ''e'')],
                nested_operations = [(''k'', [])]\<rparr>"]
  by simp

lemma create_entity_fresh_id_only_appends:
  assumes "map_of (nested_operations s) nu = None"
  shows "create_entity p t dat None copied ne nu s
           = (Inr (CreateOperation_init p t dat copied ne nu),
              s\<lparr>operations := operations s @ [CreateOperation_init p t dat copied ne nu]\<rparr>)"
proof -
  have "op_id (CreateOperation_init p t dat copied ne nu) = nu"
    by (simp add: CreateOperation_init_def Let_def)
  with assms show ?thesis
    by (simp add: create_entity_def add_or_nest_flush dict_pop_absent)
qed

text \<open>
  C1, where the code falls short of it. The operations deferred under an id are moved
  to the ready queue only inside \<^verbatim>\<open>create_entity\<close>, \<^verbatim>\<open>update_entity\<close> and
  \<^verbatim>\<open>delete_entity\<close>, right after the operation that these methods have just built is
  added, when nothing can yet be waiting for its new id. So a child deferred under the id
  of a parent stays in the deferral map: when the caller builds the parent, defers the
  child and then calls \<^verbatim>\<open>add\<close> on the parent, the ready queue is the parent alone;
  likewise when the parent was queued by \<^verbatim>\<open>create_entity\<close> before the child was
  deferred; and the commit posts the parent and leaves the child where it was.
\<close>

theorem C1_deferred_operations_are_never_queued:
  "snd (add (Operation (CreateOperation_init ''proj'' ''folder'' None Suc ''e1'' ''p''))
         (snd (create_entity ''proj'' ''subset'' None (Some ''p'') Suc ''e2'' ''c''
                 \<lparr>operations = [], nested_operations = []\<rparr>)))
   = \<lparr>operations = [CreateOperation ''p'' ''proj'' ''folder'' [(''id'', PStr ''e1'')]],
      nested_operations =
        [(''p'', [CreateOperation ''c'' ''proj'' ''subset'' [(''id'', PStr ''e2'')]])]\<rparr>
 \<and> snd (create_entity ''proj'' ''subset'' None (Some ''p'') Suc ''e2'' ''c''
         (snd (create_entity ''proj'' ''folder'' None None Suc ''e1'' ''p''
                 \<lparr>operations = [], nested_operations = []\<rparr>)))
   = \<lparr>operations = [CreateOperation ''p'' ''proj'' ''folder'' [(''id'', PStr ''e1'')]],
      nested_operations =
        [(''p'', [CreateOperation ''c'' ''proj'' ''subset'' [(''id'', PStr ''e2'')]])]\<rparr>
 \<and> commit (answering (PDict [(''success'', PBool True)]))
       \<lparr>session =
          \<lparr>operations = [CreateOperation ''p'' ''proj'' ''folder'' [(''id'', PStr ''e1'')]],
           nested_operations =
             [(''p'', [CreateOperation ''c'' ''proj'' ''subset'' [(''id'', PStr ''e2'')]])]\<rparr>,
        con_state = (), posted = []\<rparr>
   = (Inr (),
      \<lparr>session =
         \<lparr>operations = [],
          nested_operations =
            [(''p'', [CreateOperation ''c'' ''proj'' ''subset'' [(''id'', PStr ''e2'')]])]\<rparr>,
       con_state = (),
       posted =
         [(''projects/proj/operations'',
           [(''operations'', PList [PDict
               [(''id'', PStr ''p''), (''type'', PStr ''create''),
                (''entityType'', PStr ''folder''), (''entityId'', PStr ''e1''),
                (''data'', PDict [(''id'', PStr ''e1'')])]]),
            (''canFail'', PBool False)],
           Inr (PDict [(''success'', PBool True)]))]\<rparr>)"
  by (simp add: create_entity_def CreateOperation_init_def add_or_nest_def dict_contains_def
        commit_def Let_def answering_def con_post_def post_kwargs_def operations_path_def
        dict_getitem_def check_result_def)

section \<open>Entity ids at construction\<close>

text \<open>
  C4, as the code has it. No constructor parses the entity id it is given, so none
  raises on it: an update or delete operation reports the caller's \<^verbatim>\<open>entity_id\<close>, a
  create operation the deep copy of the \<^verbatim>\<open>id\<close> in the caller's payload, and the
  session's convenience methods return the operation.
\<close>

theorem C4_constructors_take_any_entity_id:
  "entity_id (UpdateOperation_init p t eid ch nu) = Inr eid
 \<and> entity_id (DeleteOperation_init p t eid nu) = Inr eid
 \<and> (map_of d ''id'' = Some v \<longrightarrow>
       entity_id (CreateOperation_init p t (Some d) copied ne nu) = Inr (deepcopy copied v))
 \<and> fst (update_entity p t eid ch None nu s) = Inr (UpdateOperation nu p t eid ch)
 \<and> fst (delete_entity p t eid None nu s) = Inr (DeleteOperation nu p t eid)
 \<and> fst (create_entity p t dat None copied ne nu s)
     = Inr (CreateOperation_init p t dat copied ne nu)"
proof -
  have c: "entity_id (CreateOperation_init p t (Some d) copied ne nu) = Inr (deepcopy copied v)"
    if v: "map_of d ''id'' = Some v"
  proof -
    from CreateOperation_init_data[of p t "Some d" copied ne nu] v obtain d0 where
      d0: "CreateOperation_init p t (Some d) copied ne nu = CreateOperation nu p t d0"
          "map_of d0 ''id'' = Some (deepcopy copied v)" by auto
    then show ?thesis by (simp add: dict_getitem_def)
  qed
  show ?thesis
    using c
    by (simp add: UpdateOperation_init_def DeleteOperation_init_def update_entity_def
          delete_entity_def create_entity_def add_or_nest_flush)
qed

theorem C4_constructors_witness:
  "map_of [(''name'', PStr ''n''), (''id'', PStr ''not-a-uuid'')] ''id'' = Some (PStr ''not-a-uuid'')
 \<and> entity_id (CreateOperation_init ''p'' ''folder''
       (Some [(''name'', PStr ''n''), (''id'', PStr ''not-a-uuid'')]) Suc ''e1'' ''o1'')
     = Inr (PStr ''not-a-uuid'')"
  using C4_constructors_take_any_entity_id
          [of "''p''" "''folder''" "PNone" "[]" "''o1''"
              "[(''name'', PStr ''n''), (''id'', PStr ''not-a-uuid'')]" "PStr ''not-a-uuid''"
              Suc "''e1''"]
  by simp

text \<open>
  \<^verbatim>\<open>uuid.UUID\<close> rejects \<^verbatim>\<open>not-a-uuid\<close> for its length, whatever \<^verbatim>\<open>int(_, 16)\<close> would
  read, and all three kinds of operation are built with it.
\<close>

theorem C4_invalid_id_accepted_counterexample:
  "uuid_UUID (\<lambda>hex. Some 0) ''not-a-uuid'' = Inl ValueError
 \<and> fst (update_entity ''p'' ''folder'' (PStr ''not-a-uuid'') [] None ''u1''
          \<lparr>operations = [], nested_operations = []\<rparr>)
     = Inr (UpdateOperation ''u1'' ''p'' ''folder'' (PStr ''not-a-uuid'') [])
 \<and> fst (delete_entity ''p'' ''folder'' (PStr ''not-a-uuid'') None ''u1''
          \<lparr>operations = [], nested_operations = []\<rparr>)
     = Inr (DeleteOperation ''u1'' ''p'' ''folder'' (PStr ''not-a-uuid''))
 \<and> fst (create_entity ''p'' ''folder'' (Some [(''id'', PStr ''not-a-uuid'')]) None Suc ''e1'' ''u1''
          \<lparr>operations = [], nested_operations = []\<rparr>)
     = Inr (CreateOperation ''u1'' ''p'' ''folder'' [(''id'', PStr ''not-a-uuid'')])"
  by (simp add: uuid_UUID_def str_strip_def update_entity_def delete_entity_def create_entity_def
       UpdateOperation_init_def DeleteOperation_init_def CreateOperation_init_def dict_contains_def
       deepcopy_dict_def add_or_nest_def)

section \<open>The loops of commit\<close>

lemma id_bodies_Nil: "id_bodies [] = []"
  by (simp add: id_bodies_def)

lemma id_bodies_Cons:
  "id_bodies (operation # ops) =
     (case to_server_operation operation of
        Inr (Some body) \<Rightarrow> [(op_id operation, body)]
      | _ \<Rightarrow> []) @ id_bodies ops"
  by (simp add: id_bodies_def)

lemma id_bodies_append: "id_bodies (xs @ ys) = id_bodies xs @ id_bodies ys"
  by (simp add: id_bodies_def)

lemma wire_bodies_append: "wire_bodies (xs @ ys) = wire_bodies xs @ wire_bodies ys"
  by (simp add: wire_bodies_def id_bodies_append)

lemma id_bodies_member:
  "(i, body) \<in> set (id_bodies ops) \<Longrightarrow>
   \<exists>operation \<in> set ops. op_id operation = i \<and> to_server_operation operation = Inr (Some body)"
  by (induction ops) (auto simp: id_bodies_Nil id_bodies_Cons split: sum.splits option.splits)

lemma wire_bodies_member:
  "body \<in> set (wire_bodies ops) \<Longrightarrow>
   \<exists>operation \<in> set ops. to_server_operation operation = Inr (Some body)"
  using id_bodies_member by (fastforce simp: wire_bodies_def)

lemma render_operations_result:
  "render_operations ops body_by_id acc = Inr (body_by_id', acc') \<Longrightarrow>
   acc' = acc @ wire_bodies ops \<and>
   map_of body_by_id' = map_of body_by_id ++ map_of (rev (id_bodies ops))"
proof (induction ops arbitrary: body_by_id acc)
  case Nil
  then show ?case by (simp add: wire_bodies_def id_bodies_Nil)
next
  case (Cons operation ops)
  show ?case
  proof (cases "to_server_operation operation")
    case (Inl e)
    with Cons.prems show ?thesis by simp
  next
    case (Inr rendering)
    show ?thesis
    proof (cases rendering)
      case None
      with Inr Cons.prems Cons.IH[of body_by_id acc] show ?thesis
        by (simp add: wire_bodies_def id_bodies_Cons)
    next
      case (Some body)
      with Inr Cons.prems
        Cons.IH[of "dict_set body_by_id (op_id operation) body" "acc @ [body]"]
      show ?thesis
        by (auto simp add: wire_bodies_def id_bodies_Cons map_of_dict_set fun_eq_iff
              map_add_def split: option.splits)
    qed
  qed
qed

lemma render_operations_total:
  "list_all renders ops \<Longrightarrow>
   \<exists>body_by_id'. render_operations ops body_by_id acc = Inr (body_by_id', acc @ wire_bodies ops)"
proof (induction ops arbitrary: body_by_id acc)
  case Nil
  then show ?case by (simp add: wire_bodies_def id_bodies_Nil)
next
  case (Cons operation ops)
  then obtain rendering where r: "to_server_operation operation = Inr rendering"
    by (auto simp: renders_def split: sum.splits)
  from Cons have rest: "list_all renders ops" by simp
  show ?case
  proof (cases rendering)
    case None
    with r Cons.IH[OF rest, of body_by_id acc] show ?thesis
      by (simp add: wire_bodies_def id_bodies_Cons)
  next
    case (Some body)
    with r Cons.IH[OF rest, of "dict_set body_by_id (op_id operation) body" "acc @ [body]"]
    show ?thesis
      by (simp add: wire_bodies_def id_bodies_Cons)
  qed
qed


lemma request_of_triple: "request_of (path, kwargs, r) = (path, kwargs)"
  by (simp add: request_of_def)

lemma outcome_of_triple: "outcome_of (path, kwargs, r) = r"
  by (simp add: outcome_of_def)

lemma requests_Nil: "requests [] = []"
  by (simp add: requests_def)

lemma requests_Cons:
  "requests ((project, ops) # rest) =
     (if wire_bodies ops \<noteq> []
      then (operations_path project, post_kwargs (wire_bodies ops)) # requests rest
      else requests rest)"
  by (simp add: requests_def)

lemma con_post_posted:
  "con_post post path kwargs w = (r, w1) \<Longrightarrow> posted w1 = posted w @ [(path, kwargs, r)]"
  by (auto simp: con_post_def split: prod.splits)


lemma submit_projects_trace:
  "submit_projects post parts body_by_id results w = (out, w') \<Longrightarrow>
   \<exists>new n. posted w' = posted w @ new \<and> map request_of new = take n (requests parts)"
proof (induction parts arbitrary: body_by_id results w)
  case Nil
  then show ?case by (intro exI[of _ "[]"] exI[of _ 0]) simp
next
  case (Cons part rest)
  obtain project ops where part: "part = (project, ops)" by (cases part)
  show ?case
  proof (cases "render_operations ops body_by_id []")
    case (Inl e)
    with Cons.prems part have "w' = w" by simp
    then show ?thesis by (intro exI[of _ "[]"] exI[of _ 0]) simp
  next
    case (Inr rendered)
    obtain b1 body where rendered: "rendered = (b1, body)" by (cases rendered)
    from render_operations_result[OF Inr[unfolded rendered]]
    have body: "body = wire_bodies ops" by simp
    show ?thesis
    proof (cases "body = []")
      case True
      with Cons.prems part Inr rendered
      have "submit_projects post rest b1 results w = (out, w')" by simp
      from Cons.IH[OF this] True body show ?thesis
        by (simp add: part requests_Cons)
    next
      case False
      obtain r w1 where cp:
        "con_post post (operations_path project) (post_kwargs body) w = (r, w1)"
        by (cases "con_post post (operations_path project) (post_kwargs body) w")
      note p1 = con_post_posted[OF cp]
      show ?thesis
      proof (cases r)
        case (Inl e)
        with Cons.prems part Inr rendered False cp have "w' = w1" by simp
        with p1 False body show ?thesis
          by (intro exI[of _ "[(operations_path project, post_kwargs body, r)]"]
                exI[of _ 1])
             (simp add: part requests_Cons request_of_triple)
      next
        case (Inr result)
        with Cons.prems part \<open>render_operations ops body_by_id [] = Inr rendered\<close>
          rendered False cp
        have "submit_projects post rest b1 (results @ [result]) w1 = (out, w')" by simp
        from Cons.IH[OF this] obtain new n where
          new: "posted w' = posted w1 @ new" "map request_of new = take n (requests rest)"
          by blast
        with p1 False body show ?thesis
          by (intro exI[of _ "(operations_path project, post_kwargs body, r) # new"]
                exI[of _ "Suc n"])
             (simp add: part requests_Cons request_of_triple)
      qed
    qed
  qed
qed


lemma con_post_outcome:
  "con_post post path kwargs w = (r, w1) \<Longrightarrow>
   r = fst (post path kwargs (con_state w) (session w))"
  by (auto simp: con_post_def split: prod.splits)

lemma submit_projects_success:
  "submit_projects post parts body_by_id results w = (Inr (body_by_id', results'), w') \<Longrightarrow>
   \<exists>new rs. posted w' = posted w @ new
     \<and> map request_of new = requests parts
     \<and> map outcome_of new = map Inr rs
     \<and> results' = results @ rs
     \<and> map_of body_by_id' =
         map_of body_by_id ++ map_of (rev (id_bodies (concat (map snd parts))))"
proof (induction parts arbitrary: body_by_id results w)
  case Nil
  then show ?case by (intro exI[of _ "[]"]) (simp add: requests_Nil id_bodies_Nil)
next
  case (Cons part rest)
  obtain project ops where part: "part = (project, ops)" by (cases part)
  show ?case
  proof (cases "render_operations ops body_by_id []")
    case (Inl e)
    with Cons.prems part show ?thesis by simp
  next
    case (Inr rendered)
    obtain b1 body where rendered: "rendered = (b1, body)" by (cases rendered)
    from render_operations_result[OF Inr[unfolded rendered]]
    have body: "body = wire_bodies ops"
      and b1: "map_of b1 = map_of body_by_id ++ map_of (rev (id_bodies ops))" by simp_all
    have join: "(map_of body_by_id ++ map_of (rev (id_bodies ops)))
                  ++ map_of (rev (id_bodies (concat (map snd rest))))
              = map_of body_by_id ++ map_of (rev (id_bodies (concat (map snd (part # rest)))))"
      by (simp add: part id_bodies_append)
    show ?thesis
    proof (cases "body = []")
      case True
      with Cons.prems part Inr rendered
      have "submit_projects post rest b1 results w = (Inr (body_by_id', results'), w')"
        by simp
      from Cons.IH[OF this] obtain new rs where
        "posted w' = posted w @ new" "map request_of new = requests rest"
        "map outcome_of new = map Inr rs" "results' = results @ rs"
        "map_of body_by_id' = map_of b1 ++ map_of (rev (id_bodies (concat (map snd rest))))"
        by blast
      with True body b1 join show ?thesis
        by (intro exI[of _ new] exI[of _ rs]) (simp add: part requests_Cons)
    next
      case False
      obtain r w1 where cp:
        "con_post post (operations_path project) (post_kwargs body) w = (r, w1)"
        by (cases "con_post post (operations_path project) (post_kwargs body) w")
      note p1 = con_post_posted[OF cp]
      show ?thesis
      proof (cases r)
        case (Inl e)
        with Cons.prems part Inr rendered False cp show ?thesis by simp
      next
        case (Inr result)
        with Cons.prems part \<open>render_operations ops body_by_id [] = Inr rendered\<close>
          rendered False cp
        have "submit_projects post rest b1 (results @ [result]) w1
                = (Inr (body_by_id', results'), w')" by simp
        from Cons.IH[OF this] obtain new rs where
          "posted w' = posted w1 @ new" "map request_of new = requests rest"
          "map outcome_of new = map Inr rs" "results' = (results @ [result]) @ rs"
          "map_of body_by_id' = map_of b1 ++ map_of (rev (id_bodies (concat (map snd rest))))"
          by blast
        with p1 False body b1 join Inr show ?thesis
          by (intro exI[of _ "(operations_path project, post_kwargs body, r) # new"]
                exI[of _ "result # rs"])
             (simp add: part requests_Cons request_of_triple outcome_of_triple)
      qed
    qed
  qed
qed

lemma submit_projects_total:
  assumes "\<And>path kwargs c s. \<not> isl (fst (post path kwargs c s))"
    and "list_all renders (concat (map snd parts))"
  shows "\<exists>body_by_id' results' w'.
           submit_projects post parts body_by_id results w = (Inr (body_by_id', results'), w')"
  using assms(2)
proof (induction parts arbitrary: body_by_id results w)
  case Nil
  then show ?case by simp
next
  case (Cons part rest)
  obtain project ops where part: "part = (project, ops)" by (cases part)
  from Cons.prems part have ops: "list_all renders ops"
    and rest: "list_all renders (concat (map snd rest))" by simp_all
  from render_operations_total[OF ops, of body_by_id "[]"] obtain b1 where
    ro: "render_operations ops body_by_id [] = Inr (b1, wire_bodies ops)" by auto
  show ?case
  proof (cases "wire_bodies ops = []")
    case True
    with ro part Cons.IH[OF rest, of b1 results w] show ?thesis by simp
  next
    case False
    obtain r w1 where cp:
      "con_post post (operations_path project) (post_kwargs (wire_bodies ops)) w = (r, w1)"
      by (cases "con_post post (operations_path project) (post_kwargs (wire_bodies ops)) w")
    have "\<not> isl r"
      using con_post_outcome[OF cp]
        assms(1)[of "operations_path project" "post_kwargs (wire_bodies ops)"
                    "con_state w" "session w"]
      by simp
    then obtain result where r: "r = Inr result" by (cases r) simp_all
    with ro part False cp Cons.IH[OF rest, of b1 "results @ [result]" w1] show ?thesis
      by simp
  qed
qed


lemma defaultdict_append_keeps:
  "(p, xs) \<in> set d \<Longrightarrow> y \<in> set xs \<Longrightarrow>
   \<exists>xs'. (p, xs') \<in> set (defaultdict_append d k x) \<and> y \<in> set xs'"
  by (induction d k x rule: defaultdict_append.induct) (auto split: if_splits)

lemma defaultdict_append_has:
  "\<exists>xs. (k, xs) \<in> set (defaultdict_append d k x) \<and> x \<in> set xs"
  by (induction d k x rule: defaultdict_append.induct) auto

lemma defaultdict_append_from:
  "(p, xs) \<in> set (defaultdict_append d k x) \<Longrightarrow> y \<in> set xs \<Longrightarrow>
   (y = x \<and> p = k) \<or> (\<exists>xs'. (p, xs') \<in> set d \<and> y \<in> set xs')"
  by (induction d k x rule: defaultdict_append.induct) (auto split: if_splits)

lemma group_by_project_covers:
  "(operation \<in> set ops
      \<or> (\<exists>xs. (project_name operation, xs) \<in> set by_project \<and> operation \<in> set xs)) \<Longrightarrow>
   \<exists>xs. (project_name operation, xs) \<in> set (group_by_project ops by_project)
        \<and> operation \<in> set xs"
proof (induction ops arbitrary: by_project)
  case Nil
  then show ?case by simp
next
  case (Cons x ops)
  have "\<exists>xs. (project_name operation, xs)
               \<in> set (defaultdict_append by_project (project_name x) x)
             \<and> operation \<in> set xs"
    if "operation \<notin> set ops"
    using that Cons.prems defaultdict_append_has[of "project_name x" by_project x]
      defaultdict_append_keeps[of "project_name operation" _ by_project operation
        "project_name x" x]
    by auto
  then show ?case using Cons.IH[of "defaultdict_append by_project (project_name x) x"]
    by auto
qed

lemma group_by_project_sound:
  "(p, xs) \<in> set (group_by_project ops by_project) \<Longrightarrow> operation \<in> set xs \<Longrightarrow>
   (operation \<in> set ops \<and> project_name operation = p)
     \<or> (\<exists>xs'. (p, xs') \<in> set by_project \<and> operation \<in> set xs')"
proof (induction ops arbitrary: by_project)
  case Nil
  then show ?case by auto
next
  case (Cons x ops)
  from Cons.IH[of "defaultdict_append by_project (project_name x) x"] Cons.prems
  have "(operation \<in> set ops \<and> project_name operation = p)
      \<or> (\<exists>xs'. (p, xs') \<in> set (defaultdict_append by_project (project_name x) x)
             \<and> operation \<in> set xs')"
    by simp
  then show ?case
    using defaultdict_append_from[of p _ by_project "project_name x" x operation]
    by auto
qed

lemma group_by_project_members:
  "(p, xs) \<in> set (group_by_project ops []) \<Longrightarrow> operation \<in> set xs \<Longrightarrow>
   operation \<in> set ops \<and> project_name operation = p"
  using group_by_project_sound[of p xs ops "[]" operation] by simp

lemma group_by_project_set:
  "set (concat (map snd (group_by_project ops []))) = set ops"
proof
  show "set (concat (map snd (group_by_project ops []))) \<subseteq> set ops"
    using group_by_project_members by fastforce
  show "set ops \<subseteq> set (concat (map snd (group_by_project ops [])))"
  proof
    fix operation assume "operation \<in> set ops"
    then obtain xs where "(project_name operation, xs) \<in> set (group_by_project ops [])"
      "operation \<in> set xs"
      using group_by_project_covers[of operation ops "[]"] by blast
    then show "operation \<in> set (concat (map snd (group_by_project ops [])))"
      by force
  qed
qed

lemma scan_op_results_succeeded:
  "list_all entry_succeeded good \<Longrightarrow>
   scan_op_results body_by_id (good @ rest) = scan_op_results body_by_id rest"
  by (induction good)
     (auto simp: entry_succeeded_def dict_getitem_def split: pyval.splits option.splits)

lemma scan_op_results_failed:
  assumes "map_of ed ''success'' = Some ok" and "\<not> truthy ok"
    and "map_of ed ''id'' = Some (PStr i)" and "map_of body_by_id i = Some body"
    and "json_serializable (PDict body)" and "map_of ed ''error'' = Some err"
  shows "scan_op_results body_by_id (PDict ed # later)
           = Inl (FailedOperationsOperation (PStr i) body err)"
  using assms by (simp add: dict_getitem_def)

lemma check_result_overall_success:
  "truthy (case map_of d ''success'' of None \<Rightarrow> PNone | Some v \<Rightarrow> v) \<Longrightarrow>
   check_result body_by_id (PDict d) = Inr ()"
  by (simp add: check_result_def)

lemma all_entries_succeededD:
  assumes "all_entries_succeeded result"
  shows "\<exists>d op_results. result = PDict d \<and> map_of d ''operations'' = Some (PList op_results)
      \<and> list_all entry_succeeded op_results"
proof -
  obtain d where d: "result = PDict d"
    using assms by (cases result) (simp_all add: all_entries_succeeded_def)
  obtain v where v: "map_of d ''operations'' = Some v"
    using assms d by (cases "map_of d ''operations''") (simp_all add: all_entries_succeeded_def)
  obtain op_results where l: "v = PList op_results"
    using assms d v by (cases v) (simp_all add: all_entries_succeeded_def)
  from assms d v l show ?thesis by (simp add: all_entries_succeeded_def)
qed

lemma check_result_all_succeeded:
  assumes "all_entries_succeeded result"
  shows "check_result body_by_id result = Inr ()"
proof -
  from all_entries_succeededD[OF assms] obtain d op_results where
    r: "result = PDict d" "map_of d ''operations'' = Some (PList op_results)"
       "list_all entry_succeeded op_results" by blast
  from scan_op_results_succeeded[OF r(3), of body_by_id "[]"]
  have "scan_op_results body_by_id op_results = Inr ()" by simp
  with r show ?thesis
    by (simp add: check_result_def dict_contains_def dict_getitem_def)
qed

lemma check_result_no_breakdown:
  "\<not> truthy (case map_of d ''success'' of None \<Rightarrow> PNone | Some v \<Rightarrow> v) \<Longrightarrow>
   map_of d ''operations'' = None \<Longrightarrow>
   check_result body_by_id (PDict d) = Inl (FailedOperationsContent (PDict d))"
  by (simp add: check_result_def dict_contains_def)

lemma check_result_breakdown:
  "\<not> truthy (case map_of d ''success'' of None \<Rightarrow> PNone | Some v \<Rightarrow> v) \<Longrightarrow>
   map_of d ''operations'' = Some (PList op_results) \<Longrightarrow>
   check_result body_by_id (PDict d) = scan_op_results body_by_id op_results"
  by (simp add: check_result_def dict_contains_def dict_getitem_def)

lemma check_results_passed:
  "\<forall>r \<in> set pre. check_result body_by_id r = Inr () \<Longrightarrow>
   check_results body_by_id (pre @ rest) = check_results body_by_id rest"
  by (induction pre) auto

lemma check_result_passes:
  assumes "overall_success result \<or> all_entries_succeeded result"
  shows "check_result body_by_id result = Inr ()"
proof (cases "all_entries_succeeded result")
  case True
  then show ?thesis by (rule check_result_all_succeeded)
next
  case False
  with assms have o: "overall_success result" by simp
  then obtain d where "result = PDict d"
    by (cases result) (simp_all add: overall_success_def)
  with o show ?thesis
    by (simp add: overall_success_def check_result_overall_success)
qed

lemma commit_empty:
  "operations (session w) = [] \<Longrightarrow> commit post w = (Inr (), w)"
  by (simp add: commit_def)

lemma commit_nonempty:
  "operations (session w) \<noteq> [] \<Longrightarrow>
   commit post w =
     (case submit_projects post (group_by_project (operations (session w)) []) [] []
             (w\<lparr>session := (session w)\<lparr>operations := []\<rparr>\<rparr>) of
        (Inl e, w1) \<Rightarrow> (Inl e, w1)
      | (Inr (body_by_id, results), w1) \<Rightarrow> (check_results body_by_id results, w1))"
  by (simp add: commit_def Let_def)

lemma commit_trace:
  assumes "commit post w = (out, w')"
  shows "\<exists>new n. posted w' = posted w @ new
           \<and> map request_of new
               = take n (requests (group_by_project (operations (session w)) []))"
proof (cases "operations (session w) = []")
  case True
  with assms commit_empty[OF True, of post] show ?thesis
    by (intro exI[of _ "[]"] exI[of _ 0]) simp
next
  case False
  let ?w0 = "w\<lparr>session := (session w)\<lparr>operations := []\<rparr>\<rparr>"
  obtain sub w1 where sub:
    "submit_projects post (group_by_project (operations (session w)) []) [] [] ?w0 = (sub, w1)"
    by (cases "submit_projects post (group_by_project (operations (session w)) []) [] [] ?w0")
  with assms commit_nonempty[OF False, of post] have "w' = w1"
    by (auto split: sum.splits prod.splits)
  with submit_projects_trace[OF sub] show ?thesis by simp
qed

lemma submit_projects_error:
  "submit_projects post parts body_by_id results w = (Inl e, w') \<Longrightarrow>
   list_all renders (concat (map snd parts)) \<Longrightarrow>
   \<exists>new. posted w' = posted w @ new \<and> new \<noteq> [] \<and> outcome_of (last new) = Inl e"
proof (induction parts arbitrary: body_by_id results w)
  case Nil
  then show ?case by simp
next
  case (Cons part rest)
  obtain project ops where part: "part = (project, ops)" by (cases part)
  from Cons.prems(2) part have ops: "list_all renders ops"
    and rest: "list_all renders (concat (map snd rest))" by simp_all
  from render_operations_total[OF ops, of body_by_id "[]"] obtain b1 where
    ro: "render_operations ops body_by_id [] = Inr (b1, wire_bodies ops)" by auto
  show ?case
  proof (cases "wire_bodies ops = []")
    case True
    with ro part Cons.prems(1) have "submit_projects post rest b1 results w = (Inl e, w')"
      by simp
    from Cons.IH[OF this rest] show ?thesis .
  next
    case False
    obtain r w1 where cp:
      "con_post post (operations_path project) (post_kwargs (wire_bodies ops)) w = (r, w1)"
      by (cases "con_post post (operations_path project) (post_kwargs (wire_bodies ops)) w")
    note p1 = con_post_posted[OF cp]
    show ?thesis
    proof (cases r)
      case (Inl e')
      with ro part False cp Cons.prems(1) have "w' = w1" "e' = e" by simp_all
      with p1 Inl show ?thesis
        by (intro exI[of _ "[(operations_path project, post_kwargs (wire_bodies ops), r)]"])
           (simp add: outcome_of_triple)
    next
      case (Inr result)
      with ro part False cp Cons.prems(1)
      have "submit_projects post rest b1 (results @ [result]) w1 = (Inl e, w')" by simp
      from Cons.IH[OF this rest] obtain new where
        "posted w' = posted w1 @ new" "new \<noteq> []" "outcome_of (last new) = Inl e" by blast
      with p1 show ?thesis
        by (intro exI[of _ "(operations_path project, post_kwargs (wire_bodies ops), r) # new"])
           simp
    qed
  qed
qed

lemma renders_grouped:
  assumes "list_all renders ops"
  shows "list_all renders (concat (map snd (group_by_project ops [])))"
proof -
  have "renders x" if "x \<in> set (concat (map snd (group_by_project ops [])))" for x
  proof -
    from that have "x \<in> set ops" by (simp only: group_by_project_set)
    with assms show ?thesis by (simp only: list_all_iff)
  qed
  then show ?thesis by (simp only: list_all_iff) blast
qed

lemma commit_checked:
  assumes cm: "commit post w = (out, w')"
    and rend: "list_all renders (operations (session w))"
    and tr: "map outcome_of (drop (length (posted w)) (posted w')) = map Inr rs"
  shows "\<exists>body_by_id. out = check_results body_by_id rs
           \<and> map_of body_by_id
               = map_of (rev (id_bodies
                   (concat (map snd (group_by_project (operations (session w)) [])))))"
proof (cases "operations (session w) = []")
  case True
  with cm commit_empty[OF True, of post] have "out = Inr ()" "w' = w" by simp_all
  with tr True show ?thesis by (intro exI[of _ "[]"]) (simp add: id_bodies_Nil)
next
  case False
  let ?w0 = "w\<lparr>session := (session w)\<lparr>operations := []\<rparr>\<rparr>"
  let ?parts = "group_by_project (operations (session w)) []"
  obtain sub w1 where sub: "submit_projects post ?parts [] [] ?w0 = (sub, w1)"
    by (cases "submit_projects post ?parts [] [] ?w0")
  with cm commit_nonempty[OF False, of post] have w1: "w' = w1"
    by (auto split: sum.splits prod.splits)
  show ?thesis
  proof (cases sub)
    case (Inl e)
    from submit_projects_error[OF sub[unfolded Inl] renders_grouped[OF rend]]
    obtain new where new: "posted w1 = posted ?w0 @ new" "new \<noteq> []"
      "outcome_of (last new) = Inl e" by blast
    with tr w1 have "map outcome_of new = map Inr rs" by simp
    with new(2) have "outcome_of (last new) = Inr (last rs)"
      by (metis last_map list.map_disc_iff)
    with new(3) show ?thesis by simp
  next
    case (Inr ok)
    obtain body_by_id results where ok: "ok = (body_by_id, results)" by (cases ok)
    from submit_projects_success[OF sub[unfolded Inr ok]] obtain new rs' where
      new: "posted w1 = posted ?w0 @ new" "map outcome_of new = map Inr rs'"
        "results = [] @ rs'"
        "map_of body_by_id = map_of [] ++ map_of (rev (id_bodies (concat (map snd ?parts))))"
      by blast
    from new(1,2) tr w1 have "map Inr rs' = (map Inr rs :: (error + pyval) list)" by simp
    then have "rs' = rs" by simp
    moreover from cm commit_nonempty[OF False, of post] sub Inr ok
    have "out = check_results body_by_id results" by simp
    ultimately show ?thesis using new(3,4) by (intro exI[of _ body_by_id]) simp
  qed
qed

lemma id_bodies_intro:
  "operation \<in> set ops \<Longrightarrow> to_server_operation operation = Inr (Some body) \<Longrightarrow>
   (op_id operation, body) \<in> set (id_bodies ops)"
proof (induction ops)
  case Nil
  then show ?case by simp
next
  case (Cons x ops)
  show ?case
  proof (cases "operation = x")
    case True
    with Cons.prems(2) show ?thesis by (simp add: id_bodies_Cons)
  next
    case False
    with Cons have "(op_id operation, body) \<in> set (id_bodies ops)" by simp
    then show ?thesis by (simp add: id_bodies_Cons)
  qed
qed

lemma map_of_unique_value:
  assumes "(k, v) \<in> set xs" and "\<And>v'. (k, v') \<in> set xs \<Longrightarrow> v' = v"
  shows "map_of xs k = Some v"
proof -
  from assms(1) have "k \<in> fst ` set xs" by force
  then obtain v' where v': "map_of xs k = Some v'"
    by (cases "map_of xs k") (simp_all add: map_of_eq_None_iff)
  then have "(k, v') \<in> set xs" by (rule map_of_SomeD)
  with assms(2) v' show ?thesis by simp
qed

lemma body_by_id_lookup:
  assumes m: "map_of body_by_id = map_of (rev (id_bodies allops))"
    and s: "set allops = set ops"
    and mem: "operation \<in> set ops"
    and tso: "to_server_operation operation = Inr (Some body)"
    and uniq: "\<forall>y \<in> set ops. op_id y = op_id operation \<longrightarrow> y = operation"
  shows "map_of body_by_id (op_id operation) = Some body"
proof -
  have a: "(op_id operation, body) \<in> set (rev (id_bodies allops))"
    using id_bodies_intro[of operation allops body] mem tso s by simp
  have b: "v' = body" if "(op_id operation, v') \<in> set (rev (id_bodies allops))" for v'
  proof -
    from that have "(op_id operation, v') \<in> set (id_bodies allops)" by simp
    then obtain y where y: "y \<in> set allops" "op_id y = op_id operation"
      "to_server_operation y = Inr (Some v')"
      using id_bodies_member[of "op_id operation" v' allops] by auto
    from y(1,2) uniq s have "y = operation" by simp
    with y(3) tso show "v' = body" by simp
  qed
  from map_of_unique_value[OF a b] m show ?thesis by simp
qed

section \<open>How commit reads the responses\<close>

text \<open>
  C3. Take a commit whose operations all have a wire form or none, whose requests were
  all answered, and in which the responses before some response \<open>PDict d\<close> raise
  nothing. If the overall \<^verbatim>\<open>success\<close> of \<open>PDict d\<close> is false and it has no
  \<^verbatim>\<open>operations\<close> key, commit raises the generic failure that carries the raw response.
  If its \<^verbatim>\<open>operations\<close> is a list whose first entry with a false \<^verbatim>\<open>success\<close> names
  an operation of the committed queue, commit raises the failure that carries that id,
  the wire body rendered for that operation and the entry's \<^verbatim>\<open>error\<close>; the entries and
  the responses after it play no part, whatever they are.
\<close>

theorem C3_first_failed_entry_is_raised:
  assumes cm: "commit post w = (out, w')"
    and rend: "list_all renders (operations (session w))"
    and tr: "map outcome_of (drop (length (posted w)) (posted w'))
               = map Inr (passed @ PDict d # unseen)"
    and passed: "\<forall>r \<in> set passed. overall_success r \<or> all_entries_succeeded r"
    and flag: "\<not> overall_success (PDict d)"
  shows "(map_of d ''operations'' = None \<longrightarrow> out = Inl (FailedOperationsContent (PDict d)))
       \<and> (\<forall>good ed later ok operation body err.
            map_of d ''operations'' = Some (PList (good @ PDict ed # later))
          \<and> list_all entry_succeeded good
          \<and> map_of ed ''success'' = Some ok \<and> \<not> truthy ok
          \<and> map_of ed ''id'' = Some (PStr (op_id operation))
          \<and> operation \<in> set (operations (session w))
          \<and> (\<forall>y \<in> set (operations (session w)). op_id y = op_id operation \<longrightarrow> y = operation)
          \<and> to_server_operation operation = Inr (Some body)
          \<and> json_serializable (PDict body)
          \<and> map_of ed ''error'' = Some err
          \<longrightarrow> out = Inl (FailedOperationsOperation (PStr (op_id operation)) body err))"
proof -
  let ?ops = "operations (session w)"
  from commit_checked[OF cm rend tr] obtain body_by_id where
    out: "out = check_results body_by_id (passed @ PDict d # unseen)"
    and bbi: "map_of body_by_id
                = map_of (rev (id_bodies (concat (map snd (group_by_project ?ops [])))))"
    by blast
  have "\<forall>r \<in> set passed. check_result body_by_id r = Inr ()"
    using passed check_result_passes by blast
  from check_results_passed[OF this, of "PDict d # unseen"] out
  have out': "out = check_results body_by_id (PDict d # unseen)" by simp
  from flag have nf: "\<not> truthy (case map_of d ''success'' of None \<Rightarrow> PNone | Some v \<Rightarrow> v)"
    by (simp add: overall_success_def)
  have A: "out = Inl (FailedOperationsContent (PDict d))" if "map_of d ''operations'' = None"
    using out' check_result_no_breakdown[OF nf that, of body_by_id] by simp
  have B: "out = Inl (FailedOperationsOperation (PStr (op_id operation)) body err)"
    if br: "map_of d ''operations'' = Some (PList (good @ PDict ed # later))"
      and good: "list_all entry_succeeded good"
      and s: "map_of ed ''success'' = Some ok" "\<not> truthy ok"
      and i: "map_of ed ''id'' = Some (PStr (op_id operation))"
      and mem: "operation \<in> set ?ops"
      and uniq: "\<forall>y \<in> set ?ops. op_id y = op_id operation \<longrightarrow> y = operation"
      and tso: "to_server_operation operation = Inr (Some body)"
      and js: "json_serializable (PDict body)"
      and e: "map_of ed ''error'' = Some err"
    for good ed later ok operation body err
  proof -
    from body_by_id_lookup[OF bbi group_by_project_set mem tso uniq]
    have l: "map_of body_by_id (op_id operation) = Some body" .
    have "check_result body_by_id (PDict d)
            = scan_op_results body_by_id (good @ PDict ed # later)"
      by (rule check_result_breakdown[OF nf br])
    also have "\<dots> = scan_op_results body_by_id (PDict ed # later)"
      by (rule scan_op_results_succeeded[OF good])
    also have "\<dots> = Inl (FailedOperationsOperation (PStr (op_id operation)) body err)"
      by (rule scan_op_results_failed[OF s i l js e])
    finally show ?thesis using out' by simp
  qed
  show ?thesis using A B by blast
qed

theorem C3_first_failed_entry_witness:
  "fst (commit (answering
         (PDict [(''success'', PBool False),
                 (''operations'', PList
                    [PDict [(''id'', PStr ''a''), (''success'', PBool True)],
                     PDict [(''id'', PStr ''b''), (''success'', PBool False),
                            (''error'', PStr ''boom'')],
                     PDict [(''id'', PStr ''c''), (''success'', PBool False),
                            (''error'', PStr ''later'')]])]))
         \<lparr>session = \<lparr>operations =
                      [DeleteOperation ''a'' ''p'' ''folder'' (PStr ''x''),
                       UpdateOperation ''b'' ''p'' ''folder'' (PStr ''y'') [(''name'', PStr ''n'')],
                       DeleteOperation ''c'' ''p'' ''folder'' (PStr ''z'')],
                    nested_operations = []\<rparr>,
          con_state = (), posted = []\<rparr>)
     = Inl (FailedOperationsOperation (PStr ''b'')
              [(''id'', PStr ''b''), (''type'', PStr ''update''), (''entityType'', PStr ''folder''),
               (''entityId'', PStr ''y''), (''data'', PDict [(''name'', PStr ''n'')])]
              (PStr ''boom''))
 \<and> fst (commit (answering (PDict [(''success'', PBool False)]))
         \<lparr>session = \<lparr>operations =
                      [DeleteOperation ''a'' ''p'' ''folder'' (PStr ''x''),
                       UpdateOperation ''b'' ''p'' ''folder'' (PStr ''y'') [(''name'', PStr ''n'')],
                       DeleteOperation ''c'' ''p'' ''folder'' (PStr ''z'')],
                    nested_operations = []\<rparr>,
          con_state = (), posted = []\<rparr>)
     = Inl (FailedOperationsContent (PDict [(''success'', PBool False)]))"
proof -
  let ?d = "[(''success'', PBool False),
             (''operations'', PList
                [PDict [(''id'', PStr ''a''), (''success'', PBool True)],
                 PDict [(''id'', PStr ''b''), (''success'', PBool False),
                        (''error'', PStr ''boom'')],
                 PDict [(''id'', PStr ''c''), (''success'', PBool False),
                        (''error'', PStr ''later'')]])]"
  let ?d2 = "[(''success'', PBool False)]"
  let ?b = "UpdateOperation ''b'' ''p'' ''folder'' (PStr ''y'') [(''name'', PStr ''n'')]"
  let ?body = "[(''id'', PStr ''b''), (''type'', PStr ''update''), (''entityType'', PStr ''folder''),
               (''entityId'', PStr ''y''), (''data'', PDict [(''name'', PStr ''n'')])]"
  let ?w = "\<lparr>session = \<lparr>operations =
                      [DeleteOperation ''a'' ''p'' ''folder'' (PStr ''x''), ?b,
                       DeleteOperation ''c'' ''p'' ''folder'' (PStr ''z'')],
                    nested_operations = []\<rparr>,
          con_state = (), posted = []\<rparr>"
  have rend: "list_all renders (operations (session ?w))"
    by (simp add: renders_def)
  have cm: "commit (answering (PDict ?d)) ?w
              = (fst (commit (answering (PDict ?d)) ?w), snd (commit (answering (PDict ?d)) ?w))"
    by simp
  have tr: "map outcome_of (drop (length (posted ?w))
                (posted (snd (commit (answering (PDict ?d)) ?w))))
              = map Inr ([] @ PDict ?d # [])"
    by (simp add: commit_def Let_def answering_def con_post_def post_kwargs_def
          operations_path_def outcome_of_def split: sum.splits)
  have cm2: "commit (answering (PDict ?d2)) ?w
              = (fst (commit (answering (PDict ?d2)) ?w), snd (commit (answering (PDict ?d2)) ?w))"
    by simp
  have tr2: "map outcome_of (drop (length (posted ?w))
                (posted (snd (commit (answering (PDict ?d2)) ?w))))
              = map Inr ([] @ PDict ?d2 # [])"
    by (simp add: commit_def Let_def answering_def con_post_def post_kwargs_def
          operations_path_def outcome_of_def split: sum.splits)
  have passed: "\<forall>r \<in> set []. overall_success r \<or> all_entries_succeeded r" by simp
  have flag: "\<not> overall_success (PDict ?d)" and flag2: "\<not> overall_success (PDict ?d2)"
    by (simp_all add: overall_success_def)
  have first: "fst (commit (answering (PDict ?d)) ?w)
                 = Inl (FailedOperationsOperation (PStr (op_id ?b)) ?body (PStr ''boom''))"
    by (rule C3_first_failed_entry_is_raised[OF cm rend tr passed flag, THEN conjunct2,
             rule_format,
             of "[PDict [(''id'', PStr ''a''), (''success'', PBool True)]]"
                "[(''id'', PStr ''b''), (''success'', PBool False), (''error'', PStr ''boom'')]"
                "[PDict [(''id'', PStr ''c''), (''success'', PBool False),
                         (''error'', PStr ''later'')]]"
                "PBool False" ?b ?body "PStr ''boom''"])
       (simp add: entry_succeeded_def REMOVED_VALUE_def)
  have second: "fst (commit (answering (PDict ?d2)) ?w) = Inl (FailedOperationsContent (PDict ?d2))"
    by (rule C3_first_failed_entry_is_raised[OF cm2 rend tr2 passed flag2, THEN conjunct1,
             rule_format])
       simp
  from first second show ?thesis by simp
qed

text \<open>
  C9. If every response of a commit either has a true overall \<^verbatim>\<open>success\<close> or carries a
  breakdown in which every entry has a true \<^verbatim>\<open>success\<close> (its own overall flag may well
  be false), commit raises nothing and returns normally.
\<close>

theorem C9_all_entries_true_is_not_raised:
  assumes cm: "commit post w = (out, w')"
    and rend: "list_all renders (operations (session w))"
    and tr: "map outcome_of (drop (length (posted w)) (posted w')) = map Inr responses"
    and ok: "\<forall>r \<in> set responses. all_entries_succeeded r \<or> overall_success r"
  shows "out = Inr ()"
proof -
  from commit_checked[OF cm rend tr] obtain body_by_id where
    out: "out = check_results body_by_id responses" by blast
  have "\<forall>r \<in> set responses. check_result body_by_id r = Inr ()"
    using ok check_result_passes by blast
  from check_results_passed[OF this, of "[]"] out show ?thesis by simp
qed

theorem C9_all_entries_true_witness:
  "list_all renders [DeleteOperation ''a'' ''p'' ''folder'' (PStr ''e'')]
 \<and> \<not> overall_success
       (PDict [(''success'', PBool False),
               (''operations'', PList [PDict [(''id'', PStr ''a''), (''success'', PBool True)]])])
 \<and> all_entries_succeeded
       (PDict [(''success'', PBool False),
               (''operations'', PList [PDict [(''id'', PStr ''a''), (''success'', PBool True)]])])
 \<and> fst (commit (answering
       (PDict [(''success'', PBool False),
               (''operations'', PList [PDict [(''id'', PStr ''a''), (''success'', PBool True)]])]))
       \<lparr>session = \<lparr>operations = [DeleteOperation ''a'' ''p'' ''folder'' (PStr ''e'')],
                    nested_operations = []\<rparr>,
        con_state = (), posted = []\<rparr>) = Inr ()"
proof -
  let ?r = "PDict [(''success'', PBool False),
               (''operations'', PList [PDict [(''id'', PStr ''a''), (''success'', PBool True)]])]"
  let ?w = "\<lparr>session = \<lparr>operations = [DeleteOperation ''a'' ''p'' ''folder'' (PStr ''e'')],
                    nested_operations = []\<rparr>,
        con_state = (), posted = []\<rparr>"
  have cm: "commit (answering ?r) ?w = (fst (commit (answering ?r) ?w), snd (commit (answering ?r) ?w))"
    by simp
  have rend: "list_all renders (operations (session ?w))"
    by (simp add: renders_def)
  have tr: "map outcome_of (drop (length (posted ?w)) (posted (snd (commit (answering ?r) ?w))))
              = map Inr [?r]"
    by (simp add: commit_def Let_def answering_def con_post_def post_kwargs_def
          operations_path_def outcome_of_def split: sum.splits)
  have ok: "\<forall>r \<in> set [?r]. all_entries_succeeded r \<or> overall_success r"
    by (simp add: all_entries_succeeded_def entry_succeeded_def)
  have no: "\<not> overall_success ?r" by (simp add: overall_success_def)
  from C9_all_entries_true_is_not_raised[OF cm rend tr ok] rend ok no
  show ?thesis by simp
qed

section \<open>What commit sends\<close>

lemma requests_member:
  assumes "(path, kwargs) \<in> set (requests parts)"
  shows "\<exists>p xs. (p, xs) \<in> set parts \<and> path = operations_path p
     \<and> kwargs = post_kwargs (wire_bodies xs) \<and> wire_bodies xs \<noteq> []"
proof -
  from assms obtain part where part: "part \<in> set parts" "wire_bodies (snd part) \<noteq> []"
    "path = operations_path (fst part)" "kwargs = post_kwargs (wire_bodies (snd part))"
    by (auto simp: requests_def)
  then show ?thesis by (intro exI[of _ "fst part"] exI[of _ "snd part"]) simp
qed

lemma requests_covers:
  assumes "(p, xs) \<in> set parts" and "wire_bodies xs \<noteq> []"
  shows "(operations_path p, post_kwargs (wire_bodies xs)) \<in> set (requests parts)"
proof -
  have "(p, xs) \<in> set (filter (\<lambda>part. wire_bodies (snd part) \<noteq> []) parts)"
    using assms by simp
  then have "(\<lambda>part. (operations_path (fst part), post_kwargs (wire_bodies (snd part)))) (p, xs)
               \<in> set (requests parts)"
    unfolding requests_def set_map by (rule imageI)
  then show ?thesis by simp
qed

lemma to_server_operation_id:
  "to_server_operation operation = Inr (Some body) \<Longrightarrow>
   map_of body ''id'' = Some (PStr (op_id operation))"
  by (cases operation) (auto simp: dict_getitem_def split: sum.splits option.splits if_splits)

lemma operations_path_inj: "operations_path p = operations_path q \<Longrightarrow> p = q"
  by (simp add: operations_path_def)

lemma commit_posted_requests:
  assumes cm: "commit post w = (out, w')"
    and mem: "entry \<in> set (drop (length (posted w)) (posted w'))"
  shows "\<exists>p xs. (p, xs) \<in> set (group_by_project (operations (session w)) [])
           \<and> fst (request_of entry) = operations_path p
           \<and> snd (request_of entry) = post_kwargs (wire_bodies xs)
           \<and> wire_bodies xs \<noteq> []"
proof -
  from commit_trace[OF cm] obtain new n where
    new: "posted w' = posted w @ new"
      "map request_of new = take n (requests (group_by_project (operations (session w)) []))"
    by blast
  from mem new(1) have "entry \<in> set new" by simp
  then have "request_of entry \<in> set (map request_of new)" by simp
  with new(2) have "request_of entry \<in> set (requests (group_by_project (operations (session w)) []))"
    by (metis in_set_takeD)
  then have "(fst (request_of entry), snd (request_of entry))
               \<in> set (requests (group_by_project (operations (session w)) []))" by simp
  from requests_member[OF this] show ?thesis .
qed

lemma commit_all_posted:
  assumes cm: "commit post w = (out, w')"
    and rend: "list_all renders (operations (session w))"
    and answered: "\<forall>entry \<in> set (drop (length (posted w)) (posted w')). \<not> isl (outcome_of entry)"
  shows "map request_of (drop (length (posted w)) (posted w'))
           = requests (group_by_project (operations (session w)) [])"
proof (cases "operations (session w) = []")
  case True
  with cm commit_empty[OF True, of post] show ?thesis by (simp add: requests_Nil)
next
  case False
  let ?w0 = "w\<lparr>session := (session w)\<lparr>operations := []\<rparr>\<rparr>"
  let ?parts = "group_by_project (operations (session w)) []"
  obtain sub w1 where sub: "submit_projects post ?parts [] [] ?w0 = (sub, w1)"
    by (cases "submit_projects post ?parts [] [] ?w0")
  with cm commit_nonempty[OF False, of post] have w1: "w' = w1"
    by (auto split: sum.splits prod.splits)
  show ?thesis
  proof (cases sub)
    case (Inl e)
    from submit_projects_error[OF sub[unfolded Inl] renders_grouped[OF rend]]
    obtain new where new: "posted w1 = posted ?w0 @ new" "new \<noteq> []"
      "outcome_of (last new) = Inl e" by blast
    from new(1,2) w1 have "last new \<in> set (drop (length (posted w)) (posted w'))" by simp
    with answered new(3) show ?thesis by auto
  next
    case (Inr ok)
    obtain body_by_id results where ok: "ok = (body_by_id, results)" by (cases ok)
    from submit_projects_success[OF sub[unfolded Inr ok]] obtain new where
      "posted w1 = posted ?w0 @ new" "map request_of new = requests ?parts" by blast
    with w1 show ?thesis by simp
  qed
qed

lemma commit_posted_bodies:
  assumes cm: "commit post w = (out, w')"
    and mem: "entry \<in> set (drop (length (posted w)) (posted w'))"
  shows "\<exists>p bodies. fst (request_of entry) = operations_path p
           \<and> snd (request_of entry) = post_kwargs bodies \<and> bodies \<noteq> []
           \<and> (\<forall>b \<in> set bodies. \<exists>y \<in> set (operations (session w)).
                  project_name y = p \<and> to_server_operation y = Inr (Some b))"
proof -
  from commit_posted_requests[OF cm mem] obtain p xs where
    px: "(p, xs) \<in> set (group_by_project (operations (session w)) [])"
      "fst (request_of entry) = operations_path p"
      "snd (request_of entry) = post_kwargs (wire_bodies xs)" "wire_bodies xs \<noteq> []"
    by blast
  have "\<exists>y \<in> set (operations (session w)).
          project_name y = p \<and> to_server_operation y = Inr (Some b)"
    if "b \<in> set (wire_bodies xs)" for b
  proof -
    from wire_bodies_member[OF that] obtain y where
      y: "y \<in> set xs" "to_server_operation y = Inr (Some b)" by blast
    from group_by_project_members[OF px(1) y(1)] y(2) show ?thesis by blast
  qed
  with px(2,3,4) show ?thesis
    by (intro exI[of _ p] exI[of _ "wire_bodies xs"]) blast
qed

text \<open>
  C5, as the code has it. Commit first posts one request for every project that has a
  body to send, and only then reads the responses. So when every queued operation has a
  wire form or none (none raises when rendered) and every request made was answered,
  the requests are those of all the projects, whatever the responses say: every
  operation with a wire form has its project's path among them, and the outcome of
  commit is that of checking the responses in order afterwards.
\<close>

theorem C5_every_partition_posted_before_responses_are_read:
  assumes cm: "commit post w = (out, w')"
    and rend: "list_all renders (operations (session w))"
    and answered: "\<forall>entry \<in> set (drop (length (posted w)) (posted w')). \<not> isl (outcome_of entry)"
  shows "map request_of (drop (length (posted w)) (posted w'))
           = requests (group_by_project (operations (session w)) [])
       \<and> (\<forall>operation \<in> set (operations (session w)).
             (\<exists>body. to_server_operation operation = Inr (Some body)) \<longrightarrow>
             operations_path (project_name operation)
               \<in> fst ` request_of ` set (drop (length (posted w)) (posted w')))
       \<and> (\<exists>body_by_id. out = check_results body_by_id
             (map (\<lambda>entry. projr (outcome_of entry)) (drop (length (posted w)) (posted w'))))"
proof -
  let ?new = "drop (length (posted w)) (posted w')"
  let ?parts = "group_by_project (operations (session w)) []"
  have all: "map request_of ?new = requests ?parts"
    by (rule commit_all_posted[OF cm rend answered])
  have cover: "operations_path (project_name operation) \<in> fst ` request_of ` set ?new"
    if mem: "operation \<in> set (operations (session w))"
      and tso: "to_server_operation operation = Inr (Some body)" for operation body
  proof -
    from group_by_project_covers[of operation "operations (session w)" "[]"] mem
    obtain xs where xs: "(project_name operation, xs) \<in> set ?parts" "operation \<in> set xs"
      by blast
    from id_bodies_intro[OF xs(2) tso] have "wire_bodies xs \<noteq> []"
      by (auto simp: wire_bodies_def)
    from requests_covers[OF xs(1) this]
    have "(operations_path (project_name operation), post_kwargs (wire_bodies xs))
            \<in> set (map request_of ?new)" by (simp only: all)
    then have "(operations_path (project_name operation), post_kwargs (wire_bodies xs))
            \<in> request_of ` set ?new" by (simp only: set_map)
    then have "fst (operations_path (project_name operation), post_kwargs (wire_bodies xs))
            \<in> fst ` request_of ` set ?new" by (rule imageI)
    then show ?thesis by simp
  qed
  have "map outcome_of ?new = map Inr (map (\<lambda>entry. projr (outcome_of entry)) ?new)"
    using answered by (simp add: comp_def)
  from commit_checked[OF cm rend this]
  have chk: "\<exists>body_by_id. out = check_results body_by_id
               (map (\<lambda>entry. projr (outcome_of entry)) ?new)" by blast
  show ?thesis using all cover chk by blast
qed

theorem C5_every_partition_posted_witness:
  "map request_of
     (posted (snd (commit (answering (PDict [(''success'', PBool False)]))
        \<lparr>session = \<lparr>operations =
                     [DeleteOperation ''a'' ''p1'' ''folder'' (PStr ''x''),
                      DeleteOperation ''b'' ''p2'' ''folder'' (PStr ''y'')],
                   nested_operations = []\<rparr>,
         con_state = (), posted = []\<rparr>)))
   = [(''projects/p1/operations'',
       [(''operations'', PList [PDict
           [(''id'', PStr ''a''), (''type'', PStr ''delete''),
            (''entityId'', PStr ''x''), (''entityType'', PStr ''folder'')]]),
        (''canFail'', PBool False)]),
      (''projects/p2/operations'',
       [(''operations'', PList [PDict
           [(''id'', PStr ''b''), (''type'', PStr ''delete''),
            (''entityId'', PStr ''y''), (''entityType'', PStr ''folder'')]]),
        (''canFail'', PBool False)])]"
proof -
  let ?post = "answering (PDict [(''success'', PBool False)]) :: unit post_fn"
  let ?w = "\<lparr>session = \<lparr>operations =
                     [DeleteOperation ''a'' ''p1'' ''folder'' (PStr ''x''),
                      DeleteOperation ''b'' ''p2'' ''folder'' (PStr ''y'')],
                   nested_operations = []\<rparr>,
         con_state = (), posted = []\<rparr>"
  have cm: "commit ?post ?w = (fst (commit ?post ?w), snd (commit ?post ?w))" by simp
  have rend: "list_all renders (operations (session ?w))" by (simp add: renders_def)
  have answered: "\<forall>entry \<in> set (drop (length (posted ?w)) (posted (snd (commit ?post ?w)))).
                    \<not> isl (outcome_of entry)"
    by (simp add: commit_def Let_def answering_def con_post_def post_kwargs_def
          operations_path_def outcome_of_def split: sum.splits)
  from C5_every_partition_posted_before_responses_are_read[OF cm rend answered, THEN conjunct1]
  show ?thesis
    by (simp add: requests_def wire_bodies_def id_bodies_def post_kwargs_def
          operations_path_def)
qed

text \<open>
  Two projects, and a connection that reports failure for each request: the second
  project is posted although the first response already said \<^verbatim>\<open>success: false\<close>, and the
  failure raised at the end is the first one.
\<close>

theorem C5_later_partition_posted_after_failure_counterexample:
  "commit (answering (PDict [(''success'', PBool False)]))
     \<lparr>session = \<lparr>operations =
                  [DeleteOperation ''a'' ''p1'' ''folder'' (PStr ''x''),
                   DeleteOperation ''b'' ''p2'' ''folder'' (PStr ''y'')],
                nested_operations = []\<rparr>,
      con_state = (), posted = []\<rparr>
   = (Inl (FailedOperationsContent (PDict [(''success'', PBool False)])),
      \<lparr>session = \<lparr>operations = [], nested_operations = []\<rparr>,
       con_state = (),
       posted =
         [(''projects/p1/operations'',
           [(''operations'', PList [PDict
               [(''id'', PStr ''a''), (''type'', PStr ''delete''),
                (''entityId'', PStr ''x''), (''entityType'', PStr ''folder'')]]),
            (''canFail'', PBool False)],
           Inr (PDict [(''success'', PBool False)])),
          (''projects/p2/operations'',
           [(''operations'', PList [PDict
               [(''id'', PStr ''b''), (''type'', PStr ''delete''),
                (''entityId'', PStr ''y''), (''entityType'', PStr ''folder'')]]),
            (''canFail'', PBool False)],
           Inr (PDict [(''success'', PBool False)]))]\<rparr>)"
  by (simp add: commit_def Let_def answering_def con_post_def post_kwargs_def
        operations_path_def check_result_def dict_contains_def)

text \<open>
  C6. An update operation with an empty change-set has no wire form. Whatever the
  connection does, every request of a commit carries a non-empty list of bodies, none
  of which bears the id of such an operation (no other queued operation sharing that id);
  a project whose operations all have no wire form gets no request; and \<^verbatim>\<open>add\<close> puts
  the operation at the end of the ready queue like any other.
\<close>

theorem C6_empty_update_is_never_sent:
  assumes cm: "commit post w = (out, w')"
    and uniq: "\<forall>y \<in> set (operations (session w)).
                 op_id y = i \<longrightarrow> y = UpdateOperation i p t e []"
  shows "to_server_operation (UpdateOperation i p t e []) = Inr None
       \<and> (\<forall>entry \<in> set (drop (length (posted w)) (posted w')).
            \<exists>bodies. snd (request_of entry) = post_kwargs bodies \<and> bodies \<noteq> []
              \<and> (\<forall>b \<in> set bodies. map_of b ''id'' \<noteq> Some (PStr i)))
       \<and> (\<forall>proj. (\<forall>y \<in> set (operations (session w)).
                      project_name y = proj \<longrightarrow> to_server_operation y = Inr None) \<longrightarrow>
              (\<forall>entry \<in> set (drop (length (posted w)) (posted w')).
                 fst (request_of entry) \<noteq> operations_path proj))
       \<and> add (Operation (UpdateOperation i p t e [])) s
            = (Inr (), s\<lparr>operations := operations s @ [UpdateOperation i p t e []]\<rparr>)"
proof -
  let ?new = "drop (length (posted w)) (posted w')"
  have none: "to_server_operation (UpdateOperation i p t e []) = Inr None" by simp
  have sent: "\<exists>bodies. snd (request_of entry) = post_kwargs bodies \<and> bodies \<noteq> []
              \<and> (\<forall>b \<in> set bodies. map_of b ''id'' \<noteq> Some (PStr i))"
    if mem: "entry \<in> set ?new" for entry
  proof -
    from commit_posted_bodies[OF cm mem] obtain q bodies where
      b: "snd (request_of entry) = post_kwargs bodies" "bodies \<noteq> []"
        "\<forall>b \<in> set bodies. \<exists>y \<in> set (operations (session w)).
            project_name y = q \<and> to_server_operation y = Inr (Some b)"
      by blast
    have "map_of b' ''id'' \<noteq> Some (PStr i)" if "b' \<in> set bodies" for b'
    proof
      assume eq: "map_of b' ''id'' = Some (PStr i)"
      from b(3) that obtain y where y: "y \<in> set (operations (session w))"
        "to_server_operation y = Inr (Some b')" by blast
      from to_server_operation_id[OF y(2)] eq have "op_id y = i" by simp
      with uniq y(1) have "y = UpdateOperation i p t e []" by blast
      with y(2) none show False by simp
    qed
    with b(1,2) show ?thesis by blast
  qed
  have skipped: "fst (request_of entry) \<noteq> operations_path proj"
    if quiet: "\<forall>y \<in> set (operations (session w)).
                 project_name y = proj \<longrightarrow> to_server_operation y = Inr None"
      and mem: "entry \<in> set ?new" for proj entry
  proof
    assume eq: "fst (request_of entry) = operations_path proj"
    from commit_posted_bodies[OF cm mem] obtain q bodies where
      b: "fst (request_of entry) = operations_path q" "bodies \<noteq> []"
        "\<forall>b \<in> set bodies. \<exists>y \<in> set (operations (session w)).
            project_name y = q \<and> to_server_operation y = Inr (Some b)"
      by blast
    from eq b(1) have q: "q = proj" by (simp add: operations_path_inj)
    from b(2) obtain b' where "b' \<in> set bodies" by (cases bodies) auto
    with b(3) q obtain y where "y \<in> set (operations (session w))" "project_name y = proj"
      "to_server_operation y = Inr (Some b')" by blast
    with quiet show False by auto
  qed
  have queued: "add (Operation (UpdateOperation i p t e [])) s
            = (Inr (), s\<lparr>operations := operations s @ [UpdateOperation i p t e []]\<rparr>)"
    by simp
  show ?thesis using none sent skipped queued by blast
qed

theorem C6_empty_update_witness:
  "to_server_operation (UpdateOperation ''u'' ''p1'' ''folder'' (PStr ''x'') []) = Inr None
 \<and> list_all (\<lambda>entry. fst (request_of entry) \<noteq> operations_path ''p1'')
      (posted (snd (commit (answering (PDict [(''success'', PBool True)]))
         \<lparr>session = \<lparr>operations =
                      [UpdateOperation ''u'' ''p1'' ''folder'' (PStr ''x'') [],
                       DeleteOperation ''d'' ''p2'' ''folder'' (PStr ''y'')],
                    nested_operations = []\<rparr>,
          con_state = (), posted = []\<rparr>)))
 \<and> operations (snd (add (Operation (UpdateOperation ''u'' ''p1'' ''folder'' (PStr ''x'') []))
        \<lparr>operations = [DeleteOperation ''d'' ''p2'' ''folder'' (PStr ''y'')],
         nested_operations = []\<rparr>))
     = [DeleteOperation ''d'' ''p2'' ''folder'' (PStr ''y''),
        UpdateOperation ''u'' ''p1'' ''folder'' (PStr ''x'') []]"
proof -
  let ?post = "answering (PDict [(''success'', PBool True)]) :: unit post_fn"
  let ?w = "\<lparr>session = \<lparr>operations =
                      [UpdateOperation ''u'' ''p1'' ''folder'' (PStr ''x'') [],
                       DeleteOperation ''d'' ''p2'' ''folder'' (PStr ''y'')],
                    nested_operations = []\<rparr>,
          con_state = (), posted = []\<rparr>"
  let ?s = "\<lparr>operations = [DeleteOperation ''d'' ''p2'' ''folder'' (PStr ''y'')],
         nested_operations = []\<rparr>"
  have cm: "commit ?post ?w = (fst (commit ?post ?w), snd (commit ?post ?w))" by simp
  have uniq: "\<forall>y \<in> set (operations (session ?w)).
                op_id y = ''u'' \<longrightarrow> y = UpdateOperation ''u'' ''p1'' ''folder'' (PStr ''x'') []"
    by simp
  have quiet: "\<forall>y \<in> set (operations (session ?w)).
                 project_name y = ''p1'' \<longrightarrow> to_server_operation y = Inr None"
    by simp
  note inst = C6_empty_update_is_never_sent[OF cm uniq, of ?s]
  from inst have a: "to_server_operation (UpdateOperation ''u'' ''p1'' ''folder'' (PStr ''x'') [])
                      = Inr None" by blast
  from inst quiet
  have "\<forall>entry \<in> set (drop (length (posted ?w)) (posted (snd (commit ?post ?w)))).
          fst (request_of entry) \<noteq> operations_path ''p1''" by blast
  then have b: "list_all (\<lambda>entry. fst (request_of entry) \<noteq> operations_path ''p1'')
                  (posted (snd (commit ?post ?w)))"
    by (simp add: list_all_iff)
  from inst have c: "add (Operation (UpdateOperation ''u'' ''p1'' ''folder'' (PStr ''x'') [])) ?s
                      = (Inr (), ?s\<lparr>operations := operations ?s
                           @ [UpdateOperation ''u'' ''p1'' ''folder'' (PStr ''x'') []]\<rparr>)"
    by blast
  from a b c show ?thesis by simp
qed


section \<open>The queue during a commit\<close>
















end
